theory Spec2Isabelle
  imports Complex_Main "HOL-Library.Stream" "HOL-Library.Multiset"
begin

section \<open>Data model of \<open>src/App.tsx\<close>\<close>

text \<open>
  The component \<open>App\<close> keeps the whole game in React state hooks. The embedding follows
  the source: one record field per hook, one HOL function per handler and per effect.
  Three things that JavaScript leaves implicit are made explicit.

  \<^item> Objects. \<open>[...characters]\<close> copies the array, not the \<open>Character\<close> objects in it, and
    the handlers then assign to fields of those shared objects. The model has a store
    \<open>objs\<close> from references to objects; \<open>characters\<close> is the array of references.
  \<^item> Randomness. \<open>Math.random()\<close> returns a number in \<open>[0, 1)\<close>; the model reads it from a
    stream \<open>rng\<close> of such numbers (the double is idealised as a real).
  \<^item> Timers. \<open>setTimeout\<close> puts a closure aside; the model keeps the pending closures,
    with what they captured, in \<open>timers\<close>.
\<close>

datatype CharacterType = animal | superhero | robot | mythical

datatype CardSuit = hearts | diamonds | clubs | spades

text \<open>\<open>Omit<Character, 'id' | 'matched' | 'flipped' | 'suit' | 'color'>\<close>, the type of the
  entries of \<open>characterData\<close>. \<open>imageUrl\<close> holds an emoji in the source; the model writes
  its code point.\<close>

record CharacterTemplate =
  name :: string
  type :: CharacterType
  imageUrl :: string

text \<open>\<open>interface Character\<close>. The field \<open>id\<close> of the source is \<open>card_id\<close> here.\<close>

record Character = CharacterTemplate +
  card_id :: nat
  matched :: bool
  flipped :: bool
  suit :: CardSuit
  color :: string

text \<open>\<open>interface DifficultyLevel\<close> (its \<open>name\<close> is \<open>level_name\<close> here; \<open>icon\<close> and \<open>color\<close>
  of the table \<open>difficultyLevels\<close> are presentation only). \<open>pairs\<close> is a count: every level
  of the source has a natural number there.\<close>

record DifficultyLevel =
  level_name :: string
  pairs :: nat
  timeLimit :: int

datatype PowerUpType = Shuffle | Hint | SlowTime

record PowerUps =
  shuffle :: int
  hint :: int
  slowTime :: int

text \<open>What an uncaught JavaScript exception leaves of a handler. Reading a property of
  \<open>undefined\<close> (an array read out of range) throws \<open>TypeError\<close>; the source has no
  \<open>throw\<close> of its own.\<close>

datatype js_error = TypeError

text \<open>The two closures the source hands to \<open>setTimeout\<close>: the mismatch reversion
  (lines 239-248), which captured the array \<open>characters\<close> and the two indices, and the hint
  expiry (lines 340-342).\<close>

datatype callback = Revert "nat list" nat nat | ClearHint

subsection \<open>The random source\<close>

typedef unit_real = "{r::real. 0 \<le> r \<and> r < 1}"
  by (rule exI [of _ 0]) simp

setup_lifting type_definition_unit_real

text \<open>The source whose every draw is \<open>0\<close>, for concrete runs.\<close>

lift_definition zero_draw :: unit_real is 0
  by simp

definition zero_draws :: "unit_real stream" where
  "zero_draws = sconst zero_draw"

text \<open>\<open>Math.floor(Math.random() * n)\<close>, for the draw \<open>r\<close>.\<close>

definition rand_index :: "unit_real \<Rightarrow> nat \<Rightarrow> nat" where
  "rand_index r n = nat \<lfloor>Rep_unit_real r * real n\<rfloor>"

subsection \<open>\<open>Array.prototype.sort\<close> with the comparator \<open>() => Math.random() - 0.5\<close>\<close>

text \<open>
  The sort is the JavaScript engine's, not the repository's: it is a parameter of the
  model. The comparator ignores its arguments, so all an engine can do on an array of
  length \<open>n\<close> is call it, branch on the sign of the result, and in the end return some
  arrangement of the \<open>n\<close> positions: a decision tree. \<open>Ask neg other\<close> is one call of the
  comparator, \<open>neg\<close> the continuation when the result is negative; \<open>Done p\<close> returns the
  array whose \<open>k\<close>-th element is the old \<open>p ! k\<close>-th.
\<close>

datatype 'a cmp_tree = Done 'a | Ask "'a cmp_tree" "'a cmp_tree"

type_synonym sort_engine = "nat \<Rightarrow> nat list cmp_tree"

fun run_cmp :: "'a cmp_tree \<Rightarrow> unit_real stream \<Rightarrow> 'a \<times> unit_real stream" where
  "run_cmp (Done x) rs = (x, rs)"
| "run_cmp (Ask neg other) rs =
     (if Rep_unit_real (shd rs) - 1 / 2 < 0 then run_cmp neg (stl rs)
      else run_cmp other (stl rs))"

fun leaves :: "'a cmp_tree \<Rightarrow> 'a list" where
  "leaves (Done x) = [x]"
| "leaves (Ask neg other) = leaves neg @ leaves other"

definition sort_random :: "sort_engine \<Rightarrow> 'a list \<Rightarrow> unit_real stream \<Rightarrow> 'a list \<times> unit_real stream" where
  "sort_random engine xs rs =
     (case run_cmp (engine (length xs)) rs of (p, rs') \<Rightarrow> (map (\<lambda>i. xs ! i) p, rs'))"

text \<open>What ECMAScript promises of every engine: the sorted array is a rearrangement of
  the old one, whatever the comparator answers.\<close>

definition rearranges :: "sort_engine \<Rightarrow> nat \<Rightarrow> bool" where
  "rearranges engine n = list_all (\<lambda>p. mset p = mset [0..<n]) (leaves (engine n))"

text \<open>
  The distribution of the outcome. A draw of a uniform source is below \<open>1/2\<close> with
  probability \<open>1/2\<close>, and the draws are independent, so the comparator's answers are fair
  coin flips: the probability that the run of a tree ends in \<open>y\<close> is the mean of the
  probabilities of its two subtrees. \<open>follow\<close> reads the answers from a list instead of
  the source (\<open>True\<close> for a negative result).
\<close>

fun outcome_prob :: "'a cmp_tree \<Rightarrow> 'a \<Rightarrow> real" where
  "outcome_prob (Done x) y = (if x = y then 1 else 0)"
| "outcome_prob (Ask neg other) y = (outcome_prob neg y + outcome_prob other y) / 2"

fun depth :: "'a cmp_tree \<Rightarrow> nat" where
  "depth (Done x) = 0"
| "depth (Ask neg other) = Suc (max (depth neg) (depth other))"

fun follow :: "'a cmp_tree \<Rightarrow> bool list \<Rightarrow> 'a" where
  "follow (Done x) answers = x"
| "follow (Ask neg other) [] = follow neg []"
| "follow (Ask neg other) (a # answers) = (if a then follow neg answers else follow other answers)"

text \<open>One such engine, for concrete runs: insertion sort. Each element is compared with
  the sorted part from the left and put before the first element it is found smaller
  than.\<close>

primrec bind_tree :: "'a cmp_tree \<Rightarrow> ('a \<Rightarrow> 'b cmp_tree) \<Rightarrow> 'b cmp_tree" where
  "bind_tree (Done x) f = f x"
| "bind_tree (Ask neg other) f = Ask (bind_tree neg f) (bind_tree other f)"

fun insert_tree :: "nat \<Rightarrow> nat list \<Rightarrow> nat list cmp_tree" where
  "insert_tree x [] = Done [x]"
| "insert_tree x (y # ys) = Ask (Done (x # y # ys)) (map_cmp_tree ((#) y) (insert_tree x ys))"

fun insertion_tree :: "nat list \<Rightarrow> nat list cmp_tree" where
  "insertion_tree [] = Done []"
| "insertion_tree (x # xs) = bind_tree (insertion_tree xs) (insert_tree x)"

definition insertion_engine :: sort_engine where
  "insertion_engine n = insertion_tree [0..<n]"

subsection \<open>The state\<close>

text \<open>The hooks of lines 93-107 (\<open>showSettings\<close> is never written), with the store, the
  random source and the pending timers (delay in milliseconds, closure).\<close>

record game =
  objs :: "nat \<Rightarrow> Character"
  nextRef :: nat
  rng :: "unit_real stream"
  timers :: "(nat \<times> callback) list"
  difficulty :: DifficultyLevel
  characters :: "nat list"
  flippedCards :: "nat list"
  matchedPairs :: nat
  timeLeft :: int
  score :: int
  gameStarted :: bool
  gameOver :: bool
  gameWon :: bool
  powerUps :: PowerUps
  hintCard :: "nat option"

text \<open>The card at a position of the board, and the board as the cards themselves.\<close>

definition card_at :: "game \<Rightarrow> nat \<Rightarrow> Character" where
  "card_at g k = objs g (characters g ! k)"

definition deck :: "game \<Rightarrow> Character list" where
  "deck g = map (objs g) (characters g)"

text \<open>The states of a card in the spec's words: the two booleans of the source.\<close>

datatype card_state = FaceDown | FaceUp | Matched

definition state_of :: "Character \<Rightarrow> card_state" where
  "state_of c = (if matched c then Matched else if flipped c then FaceUp else FaceDown)"

text \<open>The phases of the spec, from the three booleans of the source: the menu is shown
  while \<open>gameStarted\<close> is false, the game-over dialog while \<open>gameOver\<close> is true, and it
  congratulates when \<open>gameWon\<close> is true.\<close>

datatype phase = NotStarted | Playing | Won | Lost

definition phase_of :: "game \<Rightarrow> phase" where
  "phase_of g =
     (if \<not> gameStarted g then NotStarted
      else if \<not> gameOver g then Playing
      else if gameWon g then Won else Lost)"

section \<open>Board generation: \<open>initializeGame\<close> (lines 150-188)\<close>

definition difficultyLevels :: "DifficultyLevel list" where
  "difficultyLevels =
     [\<lparr>level_name = ''Normal'', pairs = 6, timeLimit = 60\<rparr>,
      \<lparr>level_name = ''Hard'', pairs = 9, timeLimit = 90\<rparr>,
      \<lparr>level_name = ''Expert'', pairs = 12, timeLimit = 120\<rparr>,
      \<lparr>level_name = ''Insane'', pairs = 18, timeLimit = 180\<rparr>]"

definition cardSuits :: "CardSuit list" where
  "cardSuits = [hearts, diamonds, clubs, spades]"

definition characterData :: "CharacterTemplate list" where
  "characterData =
     [\<lparr>name = ''Lion'', type = animal, imageUrl = ''U+1F981''\<rparr>,
      \<lparr>name = ''Elephant'', type = animal, imageUrl = ''U+1F418''\<rparr>,
      \<lparr>name = ''Giraffe'', type = animal, imageUrl = ''U+1F992''\<rparr>,
      \<lparr>name = ''Batman'', type = superhero, imageUrl = ''U+1F987''\<rparr>,
      \<lparr>name = ''Spider'', type = superhero, imageUrl = ''U+1F577 U+FE0F''\<rparr>,
      \<lparr>name = ''Robot'', type = robot, imageUrl = ''U+1F916''\<rparr>,
      \<lparr>name = ''Alien'', type = robot, imageUrl = ''U+1F47D''\<rparr>,
      \<lparr>name = ''Dragon'', type = mythical, imageUrl = ''U+1F409''\<rparr>,
      \<lparr>name = ''Unicorn'', type = mythical, imageUrl = ''U+1F984''\<rparr>,
      \<lparr>name = ''Phoenix'', type = mythical, imageUrl = ''U+1F525''\<rparr>,
      \<lparr>name = ''Mermaid'', type = mythical, imageUrl = ''U+1F9DC U+200D U+2640 U+FE0F''\<rparr>,
      \<lparr>name = ''Wizard'', type = mythical, imageUrl = ''U+1F9D9 U+200D U+2642 U+FE0F''\<rparr>,
      \<lparr>name = ''Ghost'', type = mythical, imageUrl = ''U+1F47B''\<rparr>,
      \<lparr>name = ''Vampire'', type = mythical, imageUrl = ''U+1F9DB''\<rparr>,
      \<lparr>name = ''Zombie'', type = mythical, imageUrl = ''U+1F9DF''\<rparr>,
      \<lparr>name = ''Werewolf'', type = mythical, imageUrl = ''U+1F43A''\<rparr>,
      \<lparr>name = ''Fairy'', type = mythical, imageUrl = ''U+1F9DA''\<rparr>,
      \<lparr>name = ''Ogre'', type = mythical, imageUrl = ''U+1F479''\<rparr>]"

text \<open>The body of \<open>selectedCharacters.forEach\<close> (lines 158-174), from \<open>index\<close> on: one draw
  for the suit, then the loop \<open>for (let i = 0; i < 2; i++)\<close> pushes two cards.\<close>

definition new_card :: "CharacterTemplate \<Rightarrow> nat \<Rightarrow> nat \<Rightarrow> CardSuit \<Rightarrow> string \<Rightarrow> Character" where
  "new_card char index i randomSuit col =
     \<lparr>name = name char, type = type char, imageUrl = imageUrl char,
      card_id = index * 2 + i, matched = False, flipped = False,
      suit = randomSuit, color = col\<rparr>"

fun create_pairs :: "nat \<Rightarrow> CharacterTemplate list \<Rightarrow> unit_real stream \<Rightarrow> Character list \<times> unit_real stream" where
  "create_pairs index [] rs = ([], rs)"
| "create_pairs index (char # rest) rs =
     (let randomSuit = cardSuits ! rand_index (shd rs) (length cardSuits);
          col = (if randomSuit = hearts \<or> randomSuit = diamonds then ''red'' else ''black'')
      in case create_pairs (Suc index) rest (stl rs) of
           (others, rs') \<Rightarrow>
             (new_card char index 0 randomSuit col # new_card char index 1 randomSuit col # others, rs'))"

text \<open>The new objects get the next free references, in the order they are pushed.\<close>

definition allocate :: "(nat \<Rightarrow> Character) \<Rightarrow> nat \<Rightarrow> Character list \<Rightarrow> (nat \<Rightarrow> Character)" where
  "allocate h n cs = (\<lambda>r. if n \<le> r \<and> r < n + length cs then cs ! (r - n) else h r)"

text \<open>\<open>initializeGame\<close>. \<open>slice(0, difficulty.pairs)\<close> is \<open>take\<close>: it returns what there is
  when the array is shorter. Nothing in the function throws.\<close>

definition initializeGame :: "sort_engine \<Rightarrow> game \<Rightarrow> js_error + game" where
  "initializeGame engine g =
     (case sort_random engine characterData (rng g) of
        (randomized, rs1) \<Rightarrow>
          let selectedCharacters = take (pairs (difficulty g)) randomized in
          case create_pairs 0 selectedCharacters rs1 of
            (shuffledCharacters, rs2) \<Rightarrow>
              let refs = [nextRef g ..< nextRef g + length shuffledCharacters] in
              case sort_random engine refs rs2 of
                (finalCharacters, rs3) \<Rightarrow>
                  Inr (g\<lparr>objs := allocate (objs g) (nextRef g) shuffledCharacters,
                         nextRef := nextRef g + length shuffledCharacters,
                         rng := rs3,
                         characters := finalCharacters,
                         flippedCards := [],
                         matchedPairs := 0,
                         timeLeft := timeLimit (difficulty g),
                         score := 0,
                         gameOver := False,
                         gameWon := False,
                         powerUps := \<lparr>shuffle = 1, hint = 2, slowTime = 1\<rparr>,
                         hintCard := None\<rparr>))"

text \<open>\<open>startGame\<close> (lines 191-194).\<close>

definition startGame :: "sort_engine \<Rightarrow> game \<Rightarrow> js_error + game" where
  "startGame engine g =
     (case initializeGame engine g of
        Inl e \<Rightarrow> Inl e
      | Inr g' \<Rightarrow> Inr (g'\<lparr>gameStarted := True\<rparr>))"

section \<open>Flipping and resolving\<close>

text \<open>\<open>handleCardFlip\<close> (lines 197-213). The argument is an index into \<open>characters\<close>: the
  grid calls \<open>handleCardFlip(index)\<close>. The guard is evaluated left to right, so
  \<open>characters[id]\<close> is not read when two cards are already flipped; otherwise
  \<open>characters[id].flipped\<close> throws when there is no element at \<open>id\<close>.\<close>

definition handleCardFlip :: "nat \<Rightarrow> game \<Rightarrow> js_error + game" where
  "handleCardFlip cid g =
     (if length (flippedCards g) = 2 then Inr g
      else if \<not> cid < length (characters g) then Inl TypeError
      else if flipped (card_at g cid) \<or> matched (card_at g cid) \<or> gameOver g then Inr g
      else Inr (g\<lparr>objs := (objs g)(characters g ! cid := (card_at g cid)\<lparr>flipped := True\<rparr>),
                flippedCards := flippedCards g @ [cid]\<rparr>))"

text \<open>The effect of lines 216-251, run by React after a render in which \<open>flippedCards\<close> or
  \<open>characters\<close> is a new array. A match is settled at once; a mismatch only schedules the
  closure \<open>Revert\<close> with a delay of 1000 ms.\<close>

definition matchEffect :: "game \<Rightarrow> js_error + game" where
  "matchEffect g =
     (if length (flippedCards g) = 2 then
        let first = flippedCards g ! 0; second = flippedCards g ! 1 in
        if \<not> first < length (characters g) \<or> \<not> second < length (characters g)
        then Inl TypeError
        else if name (card_at g first) = name (card_at g second) then
          let o1 = (objs g)(characters g ! first := (card_at g first)\<lparr>matched := True\<rparr>);
              o2 = o1(characters g ! second := (o1 (characters g ! second))\<lparr>matched := True\<rparr>)
          in Inr (g\<lparr>objs := o2,
                    score := score g + 10,
                    matchedPairs := matchedPairs g + 1,
                    timeLeft := timeLeft g + 5,
                    flippedCards := []\<rparr>)
        else Inr (g\<lparr>timers := timers g @ [(1000, Revert (characters g) first second)]\<rparr>)
      else Inr g)"

text \<open>What a closure does when its timer fires, on the state of that moment. \<open>Revert\<close>
  works on the array it captured and on the objects that array refers to, and hands a
  copy of that array to \<open>setCharacters\<close>.\<close>

fun run_callback :: "callback \<Rightarrow> game \<Rightarrow> js_error + game" where
  "run_callback (Revert cs first second) g =
     (if \<not> first < length cs \<or> \<not> second < length cs then Inl TypeError
      else
        let o1 = (objs g)(cs ! first := (objs g (cs ! first))\<lparr>flipped := False\<rparr>);
            o2 = o1(cs ! second := (o1 (cs ! second))\<lparr>flipped := False\<rparr>)
        in Inr (g\<lparr>objs := o2,
                  characters := cs,
                  flippedCards := [],
                  timeLeft := max 1 (timeLeft g - 2)\<rparr>))"
| "run_callback ClearHint g = Inr (g\<lparr>hintCard := None\<rparr>)"

section \<open>Winning and the countdown\<close>

text \<open>The effect of lines 254-259.\<close>

definition winEffect :: "game \<Rightarrow> game" where
  "winEffect g =
     (if gameStarted g \<and> matchedPairs g = pairs (difficulty g)
      then g\<lparr>gameWon := True, gameOver := True\<rparr> else g)"

text \<open>The effect of lines 262-277 keeps an interval exactly while \<open>timerEffect\<close> holds: it
  returns early otherwise, and its cleanup clears the interval whenever \<open>gameStarted\<close> or
  \<open>gameOver\<close> changes. \<open>countdown\<close> is what one call of the interval's callback does.\<close>

definition timerEffect :: "game \<Rightarrow> bool" where
  "timerEffect g = (\<not> (\<not> gameStarted g \<or> gameOver g))"

definition countdown :: "game \<Rightarrow> game" where
  "countdown g =
     (if timeLeft g \<le> 1 then g\<lparr>gameOver := True, timeLeft := 0\<rparr>
      else g\<lparr>timeLeft := timeLeft g - 1\<rparr>)"

section \<open>Power-ups: \<open>usePowerUp\<close> (lines 280-351)\<close>

definition count_of :: "PowerUpType \<Rightarrow> PowerUps \<Rightarrow> int" where
  "count_of t p = (case t of Shuffle \<Rightarrow> shuffle p | Hint \<Rightarrow> hint p | SlowTime \<Rightarrow> slowTime p)"

definition spend :: "PowerUpType \<Rightarrow> PowerUps \<Rightarrow> PowerUps" where
  "spend t p =
     (case t of
        Shuffle \<Rightarrow> p\<lparr>shuffle := shuffle p - 1\<rparr>
      | Hint \<Rightarrow> p\<lparr>hint := hint p - 1\<rparr>
      | SlowTime \<Rightarrow> p\<lparr>slowTime := slowTime p - 1\<rparr>)"

text \<open>Lines 292-295: the positions of the cards that are not matched.\<close>

definition unmatched_indices :: "game \<Rightarrow> nat list" where
  "unmatched_indices g = filter (\<lambda>index. \<not> matched (card_at g index)) [0..<length (characters g)]"

text \<open>The loop of lines 298-303, with \<open>i = Suc k\<close> at the head of each round; it ends when
  \<open>i > 0\<close> fails.\<close>

fun fisher_yates :: "nat \<Rightarrow> nat list \<Rightarrow> nat list \<Rightarrow> unit_real stream \<Rightarrow> nat list \<times> unit_real stream" where
  "fisher_yates 0 unmatchedIndices cs rs = (cs, rs)"
| "fisher_yates (Suc k) unmatchedIndices cs rs =
     (let i = Suc k;
          j = rand_index (shd rs) (i + 1);
          temp = cs ! (unmatchedIndices ! i);
          cs1 = cs[unmatchedIndices ! i := cs ! (unmatchedIndices ! j)];
          cs2 = cs1[unmatchedIndices ! j := temp]
      in fisher_yates k unmatchedIndices cs2 (stl rs))"

text \<open>Lines 311-322: \<open>characterMap\<close>, a \<open>Map\<close> from names to index arrays, in insertion
  order. \<open>add_index\<close> is the body of the \<open>forEach\<close> for a card that is not matched: a new
  key goes to the end, a known key gets the index pushed.\<close>

fun add_index :: "string \<Rightarrow> nat \<Rightarrow> (string \<times> nat list) list \<Rightarrow> (string \<times> nat list) list" where
  "add_index n idx [] = [(n, [idx])]"
| "add_index n idx ((k, v) # m) =
     (if k = n then (k, v @ [idx]) # m else (k, v) # add_index n idx m)"

definition character_map :: "game \<Rightarrow> (string \<times> nat list) list" where
  "character_map g =
     fold (\<lambda>idx m. if \<not> matched (card_at g idx) then add_index (name (card_at g idx)) idx m else m)
       [0..<length (characters g)] []"

text \<open>Lines 325-329.\<close>

definition unmatched_pairs :: "game \<Rightarrow> nat list list" where
  "unmatched_pairs g = map snd (filter (\<lambda>(n, indices). length indices = 2) (character_map g))"

definition usePowerUp :: "PowerUpType \<Rightarrow> game \<Rightarrow> js_error + game" where
  "usePowerUp t g =
     (if count_of t (powerUps g) \<le> 0 \<or> gameOver g \<or> \<not> gameStarted g then Inr g
      else
        let g1 = g\<lparr>powerUps := spend t (powerUps g)\<rparr> in
        case t of
          Shuffle \<Rightarrow>
            let unmatchedIndices = unmatched_indices g in
            (case fisher_yates (length unmatchedIndices - 1) unmatchedIndices (characters g) (rng g) of
               (shuffledCharacters, rs) \<Rightarrow> Inr (g1\<lparr>characters := shuffledCharacters, rng := rs\<rparr>))
        | Hint \<Rightarrow>
            let unmatchedPairs = unmatched_pairs g in
            if length unmatchedPairs > 0 then
              let randomPair = unmatchedPairs ! rand_index (shd (rng g)) (length unmatchedPairs);
                  hintCardIndex = randomPair ! rand_index (shd (stl (rng g))) 2
              in Inr (g1\<lparr>hintCard := Some hintCardIndex,
                        timers := timers g @ [(3000, ClearHint)],
                        rng := stl (stl (rng g))\<rparr>)
            else Inr g1
        | SlowTime \<Rightarrow> Inr (g1\<lparr>timeLeft := timeLeft g + 10\<rparr>))"

text \<open>For the statements: the positions of the cards that are not matched and have the
  name \<open>n\<close>, in the order of the board.\<close>

definition unmatched_named :: "game \<Rightarrow> string \<Rightarrow> nat list" where
  "unmatched_named g n =
     filter (\<lambda>k. \<not> matched (card_at g k) \<and> name (card_at g k) = n) [0..<length (characters g)]"

section \<open>Events\<close>

text \<open>
  Everything that can happen to the component: the clicks the JSX offers (lines
  388-583), a power-up intent (no button of this source calls \<open>usePowerUp\<close>; the intent is
  taken as the function stands), a tick of the interval, and the firing of the \<open>k\<close>-th
  pending timer.
\<close>

datatype event =
  SelectDifficulty DifficultyLevel
| StartGame
| FlipCard nat
| UsePowerUp PowerUpType
| PlayAgain
| MainMenu
| Tick
| Timeout nat

text \<open>What the rendered page can emit: the menu while \<open>gameStarted\<close> is false, the grid
  (one cell per element of \<open>characters\<close>) while it is true, the dialog with its two buttons
  while \<open>gameOver\<close> is true as well; a tick while the interval exists.\<close>

fun enabled :: "event \<Rightarrow> game \<Rightarrow> bool" where
  "enabled (SelectDifficulty level) g = (\<not> gameStarted g \<and> level \<in> set difficultyLevels)"
| "enabled StartGame g = (\<not> gameStarted g)"
| "enabled (FlipCard cid) g = (gameStarted g \<and> cid < length (characters g))"
| "enabled (UsePowerUp t) g = True"
| "enabled PlayAgain g = (gameStarted g \<and> gameOver g)"
| "enabled MainMenu g = (gameStarted g \<and> gameOver g)"
| "enabled Tick g = timerEffect g"
| "enabled (Timeout k) g = (k < length (timers g))"

fun handler :: "sort_engine \<Rightarrow> event \<Rightarrow> game \<Rightarrow> js_error + game" where
  "handler engine (SelectDifficulty level) g = Inr (g\<lparr>difficulty := level\<rparr>)"
| "handler engine StartGame g = startGame engine g"
| "handler engine (FlipCard cid) g = handleCardFlip cid g"
| "handler engine (UsePowerUp t) g = usePowerUp t g"
| "handler engine PlayAgain g = initializeGame engine g"
| "handler engine MainMenu g = Inr (g\<lparr>gameStarted := False\<rparr>)"
| "handler engine Tick g = Inr (countdown g)"
| "handler engine (Timeout k) g =
     run_callback (snd (timers g ! k)) (g\<lparr>timers := take k (timers g) @ drop (Suc k) (timers g)\<rparr>)"

text \<open>Whether the handler of the event calls \<open>setCharacters\<close> or \<open>setFlippedCards\<close>: the
  next render then has a new array in the dependencies of the matching effect.\<close>

fun sets_cards :: "event \<Rightarrow> game \<Rightarrow> bool" where
  "sets_cards StartGame g = True"
| "sets_cards PlayAgain g = True"
| "sets_cards (FlipCard cid) g =
     (length (flippedCards g) \<noteq> 2 \<and> \<not> flipped (card_at g cid) \<and> \<not> matched (card_at g cid) \<and> \<not> gameOver g)"
| "sets_cards (UsePowerUp t) g =
     (t = Shuffle \<and> \<not> (count_of t (powerUps g) \<le> 0 \<or> gameOver g \<or> \<not> gameStarted g))"
| "sets_cards (Timeout k) g = (case snd (timers g ! k) of Revert cs a b \<Rightarrow> True | ClearHint \<Rightarrow> False)"
| "sets_cards e g = False"

text \<open>The dependencies of the winning effect (line 259), compared by value.\<close>

definition win_deps :: "game \<Rightarrow> nat \<times> nat \<times> bool" where
  "win_deps g = (matchedPairs g, pairs (difficulty g), gameStarted g)"

text \<open>One event, with the effects React runs after it: the matching effect when the
  handler gave it a new array, then the winning effect when one of its dependencies has
  changed since the event began. The effects of a render are taken to run before the
  next event is handled; an event the page cannot emit leaves the state as it is.\<close>

definition dispatch :: "sort_engine \<Rightarrow> event \<Rightarrow> game \<Rightarrow> js_error + game" where
  "dispatch engine e g =
     (if \<not> enabled e g then Inr g
      else case handler engine e g of
        Inl err \<Rightarrow> Inl err
      | Inr g1 \<Rightarrow>
          (case (if sets_cards e g then matchEffect g1 else Inr g1) of
             Inl err \<Rightarrow> Inl err
           | Inr g2 \<Rightarrow> Inr (if win_deps g2 \<noteq> win_deps g then winEffect g2 else g2)))"

text \<open>A run of events, stopping at the first exception.\<close>

fun run :: "sort_engine \<Rightarrow> event list \<Rightarrow> game \<Rightarrow> js_error + game" where
  "run engine [] g = Inr g"
| "run engine (e # es) g =
     (case dispatch engine e g of Inl err \<Rightarrow> Inl err | Inr g' \<Rightarrow> run engine es g')"

text \<open>The state of the first render (lines 93-107), on an empty store.\<close>

definition blank :: Character where
  "blank = new_card (characterData ! 0) 0 0 hearts ''red''"

definition initial :: "unit_real stream \<Rightarrow> game" where
  "initial rs =
     \<lparr>objs = (\<lambda>r. blank), nextRef = 0, rng = rs, timers = [],
      difficulty = difficultyLevels ! 0,
      characters = [], flippedCards = [], matchedPairs = 0,
      timeLeft = timeLimit (difficultyLevels ! 0), score = 0,
      gameStarted = False, gameOver = False, gameWon = False,
      powerUps = \<lparr>shuffle = 1, hint = 2, slowTime = 1\<rparr>,
      hintCard = None\<rparr>"

section \<open>Well-formed states\<close>

text \<open>
  What holds of every state the component can be in (\<open>wf_run\<close> below). Every handler and
  effect keeps \<open>wf_static\<close>: at most two flipped indices, all within the board; the indices
  a pending \<open>Revert\<close> captured lie within the array it captured; \<open>gameWon\<close> is set only
  together with \<open>gameOver\<close>; the difficulty is one of the four levels; and before the first
  game there is neither a board nor a timer. Between the events, in addition, a running
  game has not matched all its pairs.
\<close>

fun wf_timer :: "nat \<times> callback \<Rightarrow> bool" where
  "wf_timer (d, Revert cs first second) = (first < length cs \<and> second < length cs)"
| "wf_timer (d, ClearHint) = True"

definition wf_static :: "game \<Rightarrow> bool" where
  "wf_static g =
     (length (flippedCards g) \<le> 2 \<and>
      list_all (\<lambda>i. i < length (characters g)) (flippedCards g) \<and>
      list_all wf_timer (timers g) \<and>
      (gameWon g \<longrightarrow> gameOver g) \<and>
      difficulty g \<in> set difficultyLevels \<and>
      (gameStarted g \<or> gameOver g \<or> (characters g = [] \<and> timers g = [])))"

definition wf :: "game \<Rightarrow> bool" where
  "wf g =
     (wf_static g \<and>
      (gameStarted g \<and> \<not> gameOver g \<longrightarrow> matchedPairs g \<noteq> pairs (difficulty g)))"

section \<open>Concrete states\<close>

text \<open>The board of the first game of a fresh page (level Normal) when every draw is
  \<open>0\<close> and the engine sorts by insertion: the six first templates, in order.\<close>

definition first_cards :: "Character list" where
  "first_cards = fst (create_pairs 0 (take 6 characterData) zero_draws)"

definition first_board :: game where
  "first_board =
     (initial zero_draws)\<lparr>objs := allocate (\<lambda>r. blank) 0 first_cards,
                           nextRef := 12,
                           characters := [0..<12],
                           gameStarted := True\<rparr>"

text \<open>The first board after the cards at \<open>a\<close> and \<open>b\<close> have been flipped, as the second
  \<open>handleCardFlip\<close> leaves it.\<close>

definition both_flipped :: "nat \<Rightarrow> nat \<Rightarrow> game" where
  "both_flipped a b =
     first_board\<lparr>objs := (objs first_board)
                     (a := (first_cards ! a)\<lparr>flipped := True\<rparr>,
                      b := (first_cards ! b)\<lparr>flipped := True\<rparr>),
                 flippedCards := [a, b]\<rparr>"

text \<open>The first board after the card at \<open>a\<close> has been flipped.\<close>

definition one_flipped :: "nat \<Rightarrow> game" where
  "one_flipped a =
     first_board\<lparr>objs := (objs first_board)(a := (first_cards ! a)\<lparr>flipped := True\<rparr>),
                 flippedCards := [a]\<rparr>"

text \<open>The first board after the two Elephants (positions 2 and 3) have been flipped and
  matched.\<close>

definition pair_matched :: game where
  "pair_matched =
     first_board\<lparr>objs := (objs first_board)
                     (2 := (first_cards ! 2)\<lparr>flipped := True, matched := True\<rparr>,
                      3 := (first_cards ! 3)\<lparr>flipped := True, matched := True\<rparr>),
                 score := 10, matchedPairs := 1, timeLeft := 65\<rparr>"

text \<open>The state of the first render with a difficulty of \<open>p\<close> pairs.\<close>

definition custom_start :: "nat \<Rightarrow> game" where
  "custom_start p =
     (initial zero_draws)\<lparr>difficulty := \<lparr>level_name = ''Custom'', pairs = p, timeLimit = 60\<rparr>\<rparr>"

text \<open>Late in the first game: the five first pairs are matched, and the Robot at
  position 10 has been flipped.\<close>

definition late_board :: game where
  "late_board =
     first_board\<lparr>objs := (\<lambda>r. if r < 10 then (first_cards ! r)\<lparr>flipped := True, matched := True\<rparr>
                            else if r = 10 then (first_cards ! r)\<lparr>flipped := True\<rparr>
                            else first_cards ! r),
                 flippedCards := [10], matchedPairs := 5, score := 50, timeLeft := 85\<rparr>"

text \<open>The first game at its last second, after a Lion (position 0) and an Elephant
  (position 2) have been flipped: the reversion is pending. And the second game, begun
  with the button of the dialog after the countdown has ended the first.\<close>

definition mismatch_pending :: game where
  "mismatch_pending =
     (both_flipped 0 2)\<lparr>timeLeft := 1, timers := [(1000, Revert [0..<12] 0 2)]\<rparr>"

definition second_game :: game where
  "second_game =
     mismatch_pending\<lparr>objs := allocate (objs mismatch_pending) 12 first_cards,
                      nextRef := 24,
                      characters := [12..<24],
                      flippedCards := [],
                      timeLeft := 60\<rparr>"

text \<open>The first game after the Elephant at position 3 and the Giraffe at position 4 have
  been flipped: the reversion is pending. And the state after the shuffle power-up has
  then been used, on draws that are all 0: the board is rotated by one position, so the
  positions 3 and 4 hold the two Giraffes, and the matching effect, run again for the new
  array, has matched them.\<close>

definition rotated :: "nat list" where
  "rotated = [1, 2, 3, 4, 5, 6, 7, 8, 9, 10, 11, 0]"

definition window_open :: game where
  "window_open = (both_flipped 3 4)\<lparr>timers := [(1000, Revert [0..<12] 3 4)]\<rparr>"

definition window_shuffled :: game where
  "window_shuffled =
     window_open\<lparr>objs := (objs window_open)
                    (4 := (first_cards ! 4)\<lparr>flipped := True, matched := True\<rparr>,
                     5 := (first_cards ! 5)\<lparr>matched := True\<rparr>),
                 characters := rotated,
                 flippedCards := [],
                 matchedPairs := 1,
                 timeLeft := 65,
                 score := 10,
                 powerUps := \<lparr>shuffle = 0, hint = 2, slowTime = 1\<rparr>\<rparr>"

section \<open>Properties of board generation\<close>

lemma rand_index_less: "0 < n \<Longrightarrow> rand_index r n < n"
proof -
  assume n: "0 < n"
  have r: "0 \<le> Rep_unit_real r" "Rep_unit_real r < 1"
    using Rep_unit_real [of r] by auto
  have "Rep_unit_real r * real n < real n"
    using r n by simp
  then have "\<lfloor>Rep_unit_real r * real n\<rfloor> < int n"
    by (simp add: floor_less_iff)
  then show ?thesis
    using n by (simp add: rand_index_def)
qed

lemma run_cmp_leaf: "fst (run_cmp t rs) \<in> set (leaves t)"
  by (induction t arbitrary: rs) auto

lemma mset_map_nth_perm:
  assumes "mset p = mset [0..<length xs]"
  shows "mset (map (\<lambda>i. xs ! i) p) = mset xs"
proof -
  have "mset (map (\<lambda>i. xs ! i) p) = image_mset (\<lambda>i. xs ! i) (mset p)"
    by simp
  also have "\<dots> = image_mset (\<lambda>i. xs ! i) (mset [0..<length xs])"
    by (simp only: assms)
  also have "\<dots> = mset (map (\<lambda>i. xs ! i) [0..<length xs])"
    by simp
  also have "\<dots> = mset xs"
    by (simp only: map_nth)
  finally show ?thesis .
qed

lemma sort_random_mset:
  assumes "rearranges engine (length xs)"
  shows "mset (fst (sort_random engine xs rs)) = mset xs"
proof -
  have "fst (run_cmp (engine (length xs)) rs) \<in> set (leaves (engine (length xs)))"
    by (rule run_cmp_leaf)
  with assms have "mset (fst (run_cmp (engine (length xs)) rs)) = mset [0..<length xs]"
    unfolding rearranges_def list_all_iff by blast
  then have "mset (map (\<lambda>i. xs ! i) (fst (run_cmp (engine (length xs)) rs))) = mset xs"
    by (rule mset_map_nth_perm)
  then show ?thesis
    by (simp add: sort_random_def split_beta)
qed

lemma create_pairs_names:
  "map name (fst (create_pairs index cs rs)) = concat (map (\<lambda>c. [name c, name c]) cs)"
  by (induction cs arbitrary: index rs) (simp_all add: Let_def split_beta new_card_def)

lemma create_pairs_ids:
  "map card_id (fst (create_pairs index cs rs)) = [index * 2 ..< index * 2 + 2 * length cs]"
proof (induction cs arbitrary: index rs)
  case Nil
  then show ?case by simp
next
  case (Cons c cs)
  have "[index * 2 ..< index * 2 + 2 * length (c # cs)] =
        (index * 2) # [Suc (index * 2) ..< index * 2 + 2 * length (c # cs)]"
    by (rule upt_conv_Cons) simp
  also have "[Suc (index * 2) ..< index * 2 + 2 * length (c # cs)] =
        Suc (index * 2) # [Suc (Suc (index * 2)) ..< index * 2 + 2 * length (c # cs)]"
    by (rule upt_conv_Cons) simp
  finally have "[index * 2 ..< index * 2 + 2 * length (c # cs)] =
        (index * 2) # Suc (index * 2) # [Suc index * 2 ..< Suc index * 2 + 2 * length cs]"
    by simp
  then show ?case
    using Cons.IH [of "Suc index" "stl rs"]
    by (simp add: Let_def split_beta new_card_def)
qed

lemma create_pairs_fresh:
  "c \<in> set (fst (create_pairs index cs rs)) \<Longrightarrow> \<not> matched c \<and> \<not> flipped c"
  by (induction cs arbitrary: index rs)
     (fastforce simp: Let_def split_beta new_card_def)+

lemma create_pairs_face_down:
  "c \<in> set (fst (create_pairs index cs rs)) \<Longrightarrow> state_of c = FaceDown"
  using create_pairs_fresh [of c index cs rs] by (simp add: state_of_def)

lemma create_pairs_length: "length (fst (create_pairs index cs rs)) = 2 * length cs"
  by (induction cs arbitrary: index rs) (simp_all add: Let_def split_beta)

lemma count_list_doubled:
  "count_list (concat (map (\<lambda>x. [x, x]) ns)) n = 2 * count_list ns n"
  by (induction ns) simp_all

lemma map_allocate: "map (allocate h n cs) [n ..< n + length cs] = cs"
  by (rule nth_equalityI) (simp_all add: allocate_def)

lemma characterData_names_distinct: "distinct (map name characterData)"
  by (simp add: characterData_def)

lemma characterData_length: "length characterData = 18"
  by (simp add: characterData_def)


lemma initializeGame_cards:
  assumes r1: "rearranges engine (length characterData)"
    and r2: "rearranges engine (2 * min (pairs (difficulty g)) (length characterData))"
  shows "\<exists>g' selected rs. initializeGame engine g = Inr g' \<and>
           mset (deck g') = mset (fst (create_pairs 0 selected rs)) \<and>
           length selected = min (pairs (difficulty g)) (length characterData) \<and>
           distinct (map name selected) \<and>
           set selected \<subseteq> set characterData \<and>
           (length characterData \<le> pairs (difficulty g) \<longrightarrow> mset selected = mset characterData)"
proof -
  define randomized where "randomized = fst (sort_random engine characterData (rng g))"
  define rs1 where "rs1 = snd (sort_random engine characterData (rng g))"
  define selected where "selected = take (pairs (difficulty g)) randomized"
  define cards where "cards = fst (create_pairs 0 selected rs1)"
  define rs2 where "rs2 = snd (create_pairs 0 selected rs1)"
  define refs where "refs = [nextRef g ..< nextRef g + length cards]"
  define final where "final = fst (sort_random engine refs rs2)"
  have m1: "mset randomized = mset characterData"
    unfolding randomized_def by (rule sort_random_mset [OF r1])
  then have len1: "length randomized = length characterData"
    by (rule mset_eq_length)
  have "mset (map name randomized) = mset (map name characterData)"
    using m1 by simp
  then have "distinct (map name randomized)"
    using characterData_names_distinct mset_eq_imp_distinct_iff by blast
  then have d: "distinct (map name selected)"
    by (simp add: selected_def take_map [symmetric])
  have len2: "length selected = min (pairs (difficulty g)) (length characterData)"
    by (simp add: selected_def len1 min.commute)
  have len3: "length refs = 2 * min (pairs (difficulty g)) (length characterData)"
    by (simp add: refs_def cards_def create_pairs_length len2)
  have "mset final = mset refs"
    unfolding final_def by (rule sort_random_mset) (simp only: len3 r2)
  then have "mset (map (allocate (objs g) (nextRef g) cards) final) =
             mset (map (allocate (objs g) (nextRef g) cards) refs)"
    by simp
  also have "\<dots> = mset cards"
    by (simp only: refs_def map_allocate)
  finally have m2: "mset (map (allocate (objs g) (nextRef g) cards) final) = mset cards" .
  define g' where "g' = g\<lparr>objs := allocate (objs g) (nextRef g) cards,
                         nextRef := nextRef g + length cards,
                         rng := snd (sort_random engine refs rs2),
                         characters := final,
                         flippedCards := [],
                         matchedPairs := 0,
                         timeLeft := timeLimit (difficulty g),
                         score := 0,
                         gameOver := False,
                         gameWon := False,
                         powerUps := \<lparr>shuffle = 1, hint = 2, slowTime = 1\<rparr>,
                         hintCard := None\<rparr>"
  have "initializeGame engine g = Inr g'"
    by (simp add: initializeGame_def split_beta Let_def g'_def final_def refs_def rs2_def
        cards_def selected_def rs1_def randomized_def)
  moreover have "mset (deck g') = mset (fst (create_pairs 0 selected rs1))"
    using m2 by (simp add: deck_def g'_def cards_def)
  moreover have "set selected \<subseteq> set characterData"
    using set_take_subset [of "pairs (difficulty g)" randomized] mset_eq_setD [OF m1]
    by (simp add: selected_def)
  moreover have "mset selected = mset characterData" if "length characterData \<le> pairs (difficulty g)"
    using that m1 by (simp add: selected_def len1)
  ultimately show ?thesis
    using len2 d by blast
qed

lemma distinct_count_list_1: "distinct xs \<Longrightarrow> x \<in> set xs \<Longrightarrow> count_list xs x = 1"
  by (induction xs) auto

lemma count_list_mset_cong: "mset xs = mset ys \<Longrightarrow> count_list xs x = count_list ys x"
  by (metis count_mset)

text \<open>
  Claim C1. For a difficulty with \<open>p\<close> pairs, \<open>p\<close> at most the number of templates in
  \<open>characterData\<close>, and an engine whose sort rearranges the two arrays it is given,
  \<open>initializeGame\<close> returns a deck of \<open>2p\<close> cards in which the name of every card occurs
  exactly twice, every card is face down (neither flipped nor matched), and no two cards
  have the same id.
\<close>

theorem initializeGame_deck:
  assumes "pairs (difficulty g) \<le> length characterData"
    and "rearranges engine (length characterData)"
    and "rearranges engine (2 * pairs (difficulty g))"
  shows "\<exists>g'. initializeGame engine g = Inr g' \<and>
           length (deck g') = 2 * pairs (difficulty g) \<and>
           (\<forall>c \<in> set (deck g'). count_list (map name (deck g')) (name c) = 2) \<and>
           (\<forall>c \<in> set (deck g'). state_of c = FaceDown) \<and>
           distinct (map card_id (deck g'))"
proof -
  have p: "min (pairs (difficulty g)) (length characterData) = pairs (difficulty g)"
    using assms(1) by simp
  from initializeGame_cards [of engine g] assms(2,3) p
  obtain g' selected rs where res: "initializeGame engine g = Inr g'"
    and m: "mset (deck g') = mset (fst (create_pairs 0 selected rs))"
    and len: "length selected = pairs (difficulty g)"
    and d: "distinct (map name selected)"
    by auto
  let ?cards = "fst (create_pairs 0 selected rs)"
  have s: "set (deck g') = set ?cards"
    using m by (rule mset_eq_setD)
  have l: "length (deck g') = 2 * pairs (difficulty g)"
    using mset_eq_length [OF m] by (simp add: create_pairs_length len)
  have names: "count_list (map name (deck g')) (name c) = 2" if "c \<in> set (deck g')" for c
  proof -
    have "mset (map name (deck g')) = mset (map name ?cards)"
      using m by simp
    then have "count_list (map name (deck g')) (name c) = count_list (map name ?cards) (name c)"
      by (rule count_list_mset_cong)
    also have "\<dots> = 2 * count_list (map name selected) (name c)"
      by (simp add: create_pairs_names count_list_doubled [symmetric] map_concat comp_def)
    also have "name c \<in> set (map name ?cards)"
      using that s by simp
    then have "name c \<in> set (map name selected)"
      by (auto simp: create_pairs_names)
    then have "count_list (map name selected) (name c) = 1"
      using d by (simp only: distinct_count_list_1)
    finally show ?thesis by simp
  qed
  have down: "state_of c = FaceDown" if "c \<in> set (deck g')" for c
    using that s create_pairs_face_down by blast
  have "mset (map card_id (deck g')) = mset (map card_id ?cards)"
    using m by simp
  then have ids: "distinct (map card_id (deck g'))"
    using mset_eq_imp_distinct_iff [of "map card_id (deck g')" "map card_id ?cards"]
    by (simp only: create_pairs_ids distinct_upt)
  from res l names down ids show ?thesis by blast
qed

subsection \<open>The insertion sort engine\<close>

lemma leaves_map_tree: "leaves (map_cmp_tree f t) = map f (leaves t)"
  by (induction t) simp_all

lemma leaves_bind_tree: "leaves (bind_tree t f) = concat (map (\<lambda>x. leaves (f x)) (leaves t))"
  by (induction t) simp_all

lemma insert_tree_mset: "p \<in> set (leaves (insert_tree x ys)) \<Longrightarrow> mset p = add_mset x (mset ys)"
  by (induction ys arbitrary: p) (auto simp: leaves_map_tree)

lemma insertion_tree_mset: "p \<in> set (leaves (insertion_tree xs)) \<Longrightarrow> mset p = mset xs"
  by (induction xs arbitrary: p) (auto simp: leaves_bind_tree dest: insert_tree_mset)

lemma insertion_engine_rearranges: "rearranges insertion_engine n"
  unfolding rearranges_def insertion_engine_def list_all_iff
  using insertion_tree_mset by blast

lemma run_bind_tree:
  "run_cmp (bind_tree t f) rs = (case run_cmp t rs of (x, rs') \<Rightarrow> run_cmp (f x) rs')"
  by (induction t arbitrary: rs) simp_all

lemma zero_draws_sel: "shd zero_draws = zero_draw" "stl zero_draws = zero_draws"
  by (simp_all add: zero_draws_def)

lemma rand_index_zero: "rand_index zero_draw n = 0"
  by (simp add: rand_index_def zero_draw.rep_eq)

lemma run_insert_tree_low:
  "run_cmp (insert_tree x ys) (zero_draws) = (x # ys, zero_draws)"
  by (cases ys) (simp_all add: zero_draws_sel zero_draw.rep_eq)

lemma run_insertion_tree_low:
  "run_cmp (insertion_tree xs) (zero_draws) = (xs, zero_draws)"
  by (induction xs) (simp_all add: run_bind_tree run_insert_tree_low)

lemma sort_random_low:
  "sort_random insertion_engine xs (zero_draws) = (xs, zero_draws)"
  by (simp add: sort_random_def insertion_engine_def run_insertion_tree_low map_nth)

text \<open>The first game of a fresh page, level Normal, sorted by insertion sort.\<close>

theorem initializeGame_deck_witness:
  "pairs (difficulty (initial (zero_draws))) \<le> length characterData \<and>
   rearranges insertion_engine (length characterData) \<and>
   rearranges insertion_engine (2 * pairs (difficulty (initial (zero_draws)))) \<and>
   (\<exists>g'. initializeGame insertion_engine (initial (zero_draws)) = Inr g' \<and>
      length (deck g') = 12 \<and>
      list_all (\<lambda>c. count_list (map name (deck g')) (name c) = 2) (deck g') \<and>
      list_all (\<lambda>c. state_of c = FaceDown) (deck g') \<and>
      distinct (map card_id (deck g')))"
proof -
  let ?g = "initial (zero_draws)"
  have p: "pairs (difficulty ?g) = 6"
    by (simp add: initial_def difficultyLevels_def)
  have h1: "pairs (difficulty ?g) \<le> length characterData"
    by (simp add: p characterData_length)
  from initializeGame_deck [OF h1 insertion_engine_rearranges insertion_engine_rearranges]
  show ?thesis
    using h1 insertion_engine_rearranges by (simp add: p list_all_iff)
qed

section \<open>Properties of flipping\<close>

lemma phase_Playing_iff: "phase_of g = Playing \<longleftrightarrow> gameStarted g \<and> \<not> gameOver g"
  by (simp add: phase_of_def)

lemma FaceDown_iff: "state_of c = FaceDown \<longleftrightarrow> \<not> flipped c \<and> \<not> matched c"
  by (simp add: state_of_def)

lemma FaceUp_iff: "state_of c = FaceUp \<longleftrightarrow> flipped c \<and> \<not> matched c"
  by (simp add: state_of_def)

lemma Matched_iff: "state_of c = Matched \<longleftrightarrow> matched c"
  by (simp add: state_of_def)

lemma wf_board_shown:
  assumes "wf g" and "cid < length (characters g)"
  shows "gameStarted g \<or> gameOver g"
  using assms by (auto simp: wf_def wf_static_def)

text \<open>
  Claim C8, as amended. For every well-formed state and every card id that is an index of
  the board: \<open>handleCardFlip\<close> returns the state unchanged, without an error, unless the
  phase is \<open>Playing\<close>, fewer than two cards are flipped and the card is face down; when
  these hold, it makes exactly that card face up and appends the id to \<open>flippedCards\<close>,
  which then still has at most two entries.
\<close>

theorem handleCardFlip_cases:
  assumes "wf g" and "cid < length (characters g)"
  shows "(if phase_of g = Playing \<and> length (flippedCards g) < 2 \<and> state_of (card_at g cid) = FaceDown
          then \<exists>g'. handleCardFlip cid g = Inr g' \<and>
                 g' = g\<lparr>objs := (objs g)(characters g ! cid := (card_at g cid)\<lparr>flipped := True\<rparr>),
                        flippedCards := flippedCards g @ [cid]\<rparr> \<and>
                 state_of (card_at g' cid) = FaceUp \<and>
                 length (flippedCards g') \<le> 2
          else handleCardFlip cid g = Inr g)"
proof -
  have len: "length (flippedCards g) \<le> 2"
    using assms(1) by (simp add: wf_def wf_static_def)
  have shown: "gameStarted g \<or> gameOver g"
    using assms by (rule wf_board_shown)
  show ?thesis
  proof (cases "phase_of g = Playing \<and> length (flippedCards g) < 2 \<and> state_of (card_at g cid) = FaceDown")
    case True
    then show ?thesis
      using assms(2)
      by (simp add: handleCardFlip_def phase_Playing_iff FaceDown_iff FaceUp_iff card_at_def)
  next
    case False
    then show ?thesis
      using assms(2) len shown
      by (auto simp: handleCardFlip_def phase_Playing_iff FaceDown_iff)
  qed
qed

text \<open>The first board with its first card already flipped: the second flip goes
  through, a third is ignored.\<close>


lemma first_cards_length: "length first_cards = 12"
  by (simp add: first_cards_def create_pairs_length characterData_length)

lemma first_cards_fresh: "k < 12 \<Longrightarrow> \<not> matched (first_cards ! k) \<and> \<not> flipped (first_cards ! k)"
  using create_pairs_fresh [of "first_cards ! k" 0 "take 6 characterData" zero_draws]
  by (simp add: first_cards_def [symmetric] first_cards_length)

lemma first_board_simps:
  "characters first_board = [0..<12]"
  "flippedCards first_board = []"
  "timers first_board = []"
  "gameStarted first_board"
  "\<not> gameOver first_board"
  "\<not> gameWon first_board"
  "matchedPairs first_board = 0"
  "timeLeft first_board = 60"
  "score first_board = 0"
  "pairs (difficulty first_board) = 6"
  "difficulty first_board \<in> set difficultyLevels"
  by (simp_all add: first_board_def initial_def difficultyLevels_def)

lemma first_board_card: "k < 12 \<Longrightarrow> card_at first_board k = first_cards ! k"
  by (simp add: card_at_def first_board_def allocate_def first_cards_length)

lemma create_pairs_zero_draws: "snd (create_pairs index cs zero_draws) = zero_draws"
  by (induction cs arbitrary: index) (simp_all add: Let_def split_beta zero_draws_sel)

lemma first_board_reached: "startGame insertion_engine (initial zero_draws) = Inr first_board"
proof -
  have d: "difficulty (initial zero_draws) = difficultyLevels ! 0" "rng (initial zero_draws) = zero_draws"
    "nextRef (initial zero_draws) = 0"
    by (simp_all add: initial_def)
  have p: "pairs (difficultyLevels ! 0) = 6"
    by (simp add: difficultyLevels_def)
  have c: "create_pairs 0 (take 6 characterData) zero_draws = (first_cards, zero_draws)"
    using create_pairs_zero_draws [of 0 "take 6 characterData"]
    by (simp add: first_cards_def prod_eq_iff)
  show ?thesis
    by (simp add: startGame_def initializeGame_def sort_random_low d p c first_cards_length)
       (simp add: first_board_def initial_def difficultyLevels_def)
qed

lemma first_board_wf: "wf first_board"
  by (simp add: wf_def wf_static_def first_board_simps)

lemma first_board_Playing: "phase_of first_board = Playing"
  by (simp add: phase_of_def first_board_simps)

theorem handleCardFlip_cases_witness:
  "wf first_board \<and> 0 < length (characters first_board) \<and>
   (\<exists>g'. handleCardFlip 0 first_board = Inr g' \<and> state_of (card_at g' 0) = FaceUp \<and>
      flippedCards g' = [0])"
proof -
  have h: "0 < length (characters first_board)"
    by (simp add: first_board_simps)
  have c: "phase_of first_board = Playing \<and> length (flippedCards first_board) < 2 \<and>
           state_of (card_at first_board 0) = FaceDown"
    using first_cards_fresh [of 0]
    by (simp add: first_board_Playing first_board_simps first_board_card FaceDown_iff)
  from handleCardFlip_cases [OF first_board_wf h] c
  show ?thesis
    using first_board_wf h by (auto simp: first_board_simps)
qed

text \<open>The claim as it stands fails in the state of the first render: the phase is not
  \<open>Playing\<close>, and the flip is not a silent no-op but an exception.\<close>

theorem handleCardFlip_not_silent:
  "phase_of (initial zero_draws) \<noteq> Playing \<and>
   handleCardFlip 0 (initial zero_draws) = Inl TypeError"
  by (simp add: phase_of_def handleCardFlip_def initial_def)

section \<open>Properties of the resolution\<close>

text \<open>
  One run of the matching effect, when \<open>flippedCards\<close> holds the indices of two cards of
  the board. If the names are equal, it returns at once a state in which both cards are
  matched, \<open>score\<close> is 10 higher, \<open>matchedPairs\<close> 1 higher, \<open>timeLeft\<close> 5 higher and
  \<open>flippedCards\<close> is empty, and schedules nothing. If the names differ, it changes nothing
  but schedules the reversion with a delay of 1000 ms; when that fires, on a state \<open>s\<close> in
  which the two cards are still unmatched, both cards are face down, \<open>flippedCards\<close> is
  empty and \<open>timeLeft\<close> is \<open>max 1 (timeLeft s - 2)\<close>. The last section shows a run in which
  one of the two cards is matched before the reversion fires.
\<close>

lemma matchEffect_resolution:
  assumes "flippedCards g = [first, second]"
    and "first < length (characters g)" and "second < length (characters g)"
  shows "if name (card_at g first) = name (card_at g second)
         then \<exists>g'. matchEffect g = Inr g' \<and>
                state_of (card_at g' first) = Matched \<and> state_of (card_at g' second) = Matched \<and>
                score g' = score g + 10 \<and> matchedPairs g' = matchedPairs g + 1 \<and>
                timeLeft g' = timeLeft g + 5 \<and> flippedCards g' = [] \<and> timers g' = timers g
         else matchEffect g = Inr (g\<lparr>timers := timers g @ [(1000, Revert (characters g) first second)]\<rparr>) \<and>
              (\<forall>s. \<not> matched (objs s (characters g ! first)) \<and>
                    \<not> matched (objs s (characters g ! second)) \<longrightarrow>
                 (\<exists>s'. run_callback (Revert (characters g) first second) s = Inr s' \<and>
                    state_of (card_at s' first) = FaceDown \<and> state_of (card_at s' second) = FaceDown \<and>
                    flippedCards s' = [] \<and> timeLeft s' = max 1 (timeLeft s - 2)))"
proof (cases "name (card_at g first) = name (card_at g second)")
  case True
  then show ?thesis
    using assms(1-3)
    by (simp add: matchEffect_def Let_def card_at_def Matched_iff)
next
  case False
  have "matchEffect g = Inr (g\<lparr>timers := timers g @ [(1000, Revert (characters g) first second)]\<rparr>)"
    using False assms(1-3) by (simp add: matchEffect_def Let_def)
  moreover have "\<exists>s'. run_callback (Revert (characters g) first second) s = Inr s' \<and>
      state_of (card_at s' first) = FaceDown \<and> state_of (card_at s' second) = FaceDown \<and>
      flippedCards s' = [] \<and> timeLeft s' = max 1 (timeLeft s - 2)"
    if "\<not> matched (objs s (characters g ! first)) \<and> \<not> matched (objs s (characters g ! second))" for s
    using that assms(2,3)
    by (simp add: Let_def card_at_def FaceDown_iff)
  ultimately show ?thesis
    using False by simp
qed

lemma first_cards_names:
  "map name first_cards =
     [''Lion'', ''Lion'', ''Elephant'', ''Elephant'', ''Giraffe'', ''Giraffe'',
      ''Batman'', ''Batman'', ''Spider'', ''Spider'', ''Robot'', ''Robot'']"
  by (simp only: first_cards_def create_pairs_names) (simp add: characterData_def)

lemma first_cards_name: "k < 12 \<Longrightarrow> name (first_cards ! k) = map name first_cards ! k"
  by (simp add: first_cards_length)

lemma both_flipped_simps:
  "characters (both_flipped a b) = [0..<12]"
  "flippedCards (both_flipped a b) = [a, b]"
  "timers (both_flipped a b) = []"
  "timeLeft (both_flipped a b) = 60"
  "score (both_flipped a b) = 0"
  "matchedPairs (both_flipped a b) = 0"
  "gameStarted (both_flipped a b)"
  "\<not> gameOver (both_flipped a b)"
  "\<not> gameWon (both_flipped a b)"
  "pairs (difficulty (both_flipped a b)) = 6"
  "difficulty (both_flipped a b) \<in> set difficultyLevels"
  by (simp_all add: both_flipped_def first_board_simps)

lemma both_flipped_card:
  "k < 12 \<Longrightarrow> a < 12 \<Longrightarrow> b < 12 \<Longrightarrow>
   card_at (both_flipped a b) k =
     (if k = a \<or> k = b then (first_cards ! k)\<lparr>flipped := True\<rparr> else first_cards ! k)"
  by (auto simp: card_at_def both_flipped_def first_board_def allocate_def first_cards_length)

lemma both_flipped_reached:
  assumes "a < 12" and "b < 12" and "a \<noteq> b"
  shows "\<exists>g1. handleCardFlip a first_board = Inr g1 \<and> handleCardFlip b g1 = Inr (both_flipped a b)"
proof -
  have fa: "\<not> matched (first_cards ! a) \<and> \<not> flipped (first_cards ! a)"
    and fb: "\<not> matched (first_cards ! b) \<and> \<not> flipped (first_cards ! b)"
    using assms first_cards_fresh by blast+
  have o: "objs first_board a = first_cards ! a" "objs first_board b = first_cards ! b"
    using assms first_board_card [of a] first_board_card [of b]
    by (simp_all add: card_at_def first_board_simps)
  show ?thesis
    using assms fa fb o
    by (simp add: handleCardFlip_def first_board_simps card_at_def both_flipped_def)
qed

text \<open>The first board with the two Elephants flipped; and with a Lion and an Elephant
  flipped, where the reversion fires after one tick of the countdown.\<close>

lemma matchEffect_resolution_example:
  "flippedCards (both_flipped 2 3) = [2, 3] \<and>
   state_of (card_at (both_flipped 2 3) 2) = FaceUp \<and>
   state_of (card_at (both_flipped 2 3) 3) = FaceUp \<and>
   name (card_at (both_flipped 2 3) 2) = name (card_at (both_flipped 2 3) 3) \<and>
   (\<exists>g'. matchEffect (both_flipped 2 3) = Inr g' \<and>
      state_of (card_at g' 2) = Matched \<and> state_of (card_at g' 3) = Matched \<and>
      score g' = 10 \<and> matchedPairs g' = 1 \<and> timeLeft g' = 65 \<and> flippedCards g' = []) \<and>
   flippedCards (both_flipped 0 2) = [0, 2] \<and>
   state_of (card_at (both_flipped 0 2) 0) = FaceUp \<and>
   state_of (card_at (both_flipped 0 2) 2) = FaceUp \<and>
   name (card_at (both_flipped 0 2) 0) \<noteq> name (card_at (both_flipped 0 2) 2) \<and>
   timers (projr (matchEffect (both_flipped 0 2))) = [(1000, Revert [0..<12] 0 2)] \<and>
   (\<exists>s'. run_callback (Revert [0..<12] 0 2) (countdown (both_flipped 0 2)) = Inr s' \<and>
      state_of (card_at s' 0) = FaceDown \<and> state_of (card_at s' 2) = FaceDown \<and>
      flippedCards s' = [] \<and> timeLeft s' = 57)"
proof -
  let ?g = "both_flipped 2 3"
  have c: "card_at ?g 2 = (first_cards ! 2)\<lparr>flipped := True\<rparr>"
    "card_at ?g 3 = (first_cards ! 3)\<lparr>flipped := True\<rparr>"
    by (simp_all add: both_flipped_card)
  have n: "name (card_at ?g 2) = name (card_at ?g 3)"
    by (simp add: c first_cards_name first_cards_names)
  have u: "state_of (card_at ?g 2) = FaceUp" "state_of (card_at ?g 3) = FaceUp"
    using first_cards_fresh [of 2] first_cards_fresh [of 3] by (simp_all add: c FaceUp_iff)
  have f: "flippedCards ?g = [2, 3]"
    by (simp add: both_flipped_simps)
  have l: "2 < length (characters ?g)" "3 < length (characters ?g)"
    by (simp_all add: both_flipped_simps)
  from matchEffect_resolution [OF f l] n
  have m: "\<exists>g'. matchEffect ?g = Inr g' \<and>
      state_of (card_at g' 2) = Matched \<and> state_of (card_at g' 3) = Matched \<and>
      score g' = 10 \<and> matchedPairs g' = 1 \<and> timeLeft g' = 65 \<and> flippedCards g' = []"
    by (auto simp: both_flipped_simps)
  let ?h = "both_flipped 0 2"
  have c': "card_at ?h 0 = (first_cards ! 0)\<lparr>flipped := True\<rparr>"
    "card_at ?h 2 = (first_cards ! 2)\<lparr>flipped := True\<rparr>"
    by (simp_all add: both_flipped_card)
  have n': "name (card_at ?h 0) \<noteq> name (card_at ?h 2)"
    by (simp add: c' first_cards_name first_cards_names)
  have u': "state_of (card_at ?h 0) = FaceUp" "state_of (card_at ?h 2) = FaceUp"
    using first_cards_fresh [of 0] first_cards_fresh [of 2] by (simp_all add: c' FaceUp_iff)
  have f': "flippedCards ?h = [0, 2]"
    by (simp add: both_flipped_simps)
  have l': "0 < length (characters ?h)" "2 < length (characters ?h)"
    by (simp_all add: both_flipped_simps)
  have o: "objs (countdown ?h) = objs ?h" "timeLeft (countdown ?h) = 59"
    by (simp_all add: countdown_def both_flipped_simps)
  have k: "\<not> matched (objs ?h (characters ?h ! 0)) \<and> \<not> matched (objs ?h (characters ?h ! 2))"
    using u' by (simp add: FaceUp_iff card_at_def)
  from matchEffect_resolution [OF f' l'] n'
  have r: "matchEffect ?h = Inr (?h\<lparr>timers := timers ?h @ [(1000, Revert (characters ?h) 0 2)]\<rparr>)"
    and a: "\<And>s. \<not> matched (objs s (characters ?h ! 0)) \<and> \<not> matched (objs s (characters ?h ! 2)) \<Longrightarrow>
      \<exists>s'. run_callback (Revert (characters ?h) 0 2) s = Inr s' \<and>
        state_of (card_at s' 0) = FaceDown \<and> state_of (card_at s' 2) = FaceDown \<and>
        flippedCards s' = [] \<and> timeLeft s' = max 1 (timeLeft s - 2)"
    by simp_all
  have t: "timers (projr (matchEffect ?h)) = [(1000, Revert [0..<12] 0 2)]"
    by (simp add: r both_flipped_simps)
  have "\<exists>s'. run_callback (Revert [0..<12] 0 2) (countdown ?h) = Inr s' \<and>
      state_of (card_at s' 0) = FaceDown \<and> state_of (card_at s' 2) = FaceDown \<and>
      flippedCards s' = [] \<and> timeLeft s' = 57"
    using a [of "countdown ?h"] k by (simp add: o both_flipped_simps)
  with m f u n f' u' n' t show ?thesis
    by blast
qed

section \<open>Properties of the shuffle power-up\<close>

lemma swap_mset:
  assumes "a < length cs" and "b < length cs"
  shows "mset (cs[a := cs ! b, b := cs ! a]) = mset cs"
  using mset_swap [OF assms(2) assms(1)] by (simp add: list_update_swap)

lemma fisher_yates_length: "length (fst (fisher_yates n idx cs rs)) = length cs"
  by (induction n arbitrary: cs rs) (simp_all add: Let_def)

lemma fisher_yates_frame:
  assumes "n < length idx" and "k \<notin> set idx"
  shows "fst (fisher_yates n idx cs rs) ! k = cs ! k"
  using assms
proof (induction n arbitrary: cs rs)
  case 0
  then show ?case by simp
next
  case (Suc n)
  have j: "rand_index (shd rs) (Suc n + 1) < length idx"
    using rand_index_less [of "Suc n + 1" "shd rs"] Suc.prems(1) by simp
  have "idx ! Suc n \<in> set idx" and "idx ! rand_index (shd rs) (Suc n + 1) \<in> set idx"
    using Suc.prems(1) j by simp_all
  then have "k \<noteq> idx ! Suc n" and "k \<noteq> idx ! rand_index (shd rs) (Suc n + 1)"
    using Suc.prems(2) by auto
  then show ?case
    using Suc.IH [of _ "stl rs"] Suc.prems by (simp add: Let_def)
qed

lemma fisher_yates_mset:
  assumes "n < length idx" and "\<forall>i \<in> set idx. i < length cs"
  shows "mset (fst (fisher_yates n idx cs rs)) = mset cs"
  using assms
proof (induction n arbitrary: cs rs)
  case 0
  then show ?case by simp
next
  case (Suc n)
  let ?j = "rand_index (shd rs) (Suc n + 1)"
  let ?cs = "cs[idx ! Suc n := cs ! (idx ! ?j), idx ! ?j := cs ! (idx ! Suc n)]"
  have j: "?j < length idx"
    using rand_index_less [of "Suc n + 1" "shd rs"] Suc.prems(1) by simp
  have a: "idx ! Suc n < length cs" and b: "idx ! ?j < length cs"
    using Suc.prems j by simp_all
  have m: "mset ?cs = mset cs"
    using a b by (rule swap_mset)
  have "mset (fst (fisher_yates n idx ?cs (stl rs))) = mset ?cs"
    using Suc.prems by (intro Suc.IH) simp_all
  with m show ?case
    by (simp add: Let_def)
qed

lemma unmatched_indices_set:
  "set (unmatched_indices g) = {k. k < length (characters g) \<and> \<not> matched (card_at g k)}"
  by (auto simp: unmatched_indices_def)

text \<open>
  Claim C6, as amended. The shuffle power-up leaves the objects as they are and rearranges
  the board; every position that holds a matched card holds the same card afterwards.
  (The positions it permutes are those of all cards that are not matched, face up or
  face down.)
\<close>

theorem shuffle_keeps_matched:
  "\<exists>g'. usePowerUp Shuffle g = Inr g' \<and> objs g' = objs g \<and>
     mset (characters g') = mset (characters g) \<and>
     (\<forall>k < length (characters g). state_of (card_at g k) = Matched \<longrightarrow>
        characters g' ! k = characters g ! k \<and> state_of (card_at g' k) = Matched)"
proof (cases "count_of Shuffle (powerUps g) \<le> 0 \<or> gameOver g \<or> \<not> gameStarted g")
  case True
  then show ?thesis
    by (simp add: usePowerUp_def)
next
  case False
  let ?idx = "unmatched_indices g"
  let ?n = "length ?idx - 1"
  let ?r = "fisher_yates ?n ?idx (characters g) (rng g)"
  define g' where "g' = g\<lparr>powerUps := spend Shuffle (powerUps g), characters := fst ?r, rng := snd ?r\<rparr>"
  have res: "usePowerUp Shuffle g = Inr g'"
    using False by (simp add: usePowerUp_def Let_def split_beta g'_def)
  have o: "objs g' = objs g"
    by (simp add: g'_def)
  have c: "characters g' = fst ?r"
    by (simp add: g'_def)
  show ?thesis
  proof (cases "?idx = []")
    case True
    then have "fst ?r = characters g"
      by simp
    with res o c show ?thesis
      by (simp add: card_at_def)
  next
    case False
    then have n: "?n < length ?idx"
      by (simp add: Suc_leI)
    have r: "\<forall>i \<in> set ?idx. i < length (characters g)"
      by (simp add: unmatched_indices_set)
    have m: "mset (characters g') = mset (characters g)"
      unfolding c using n r by (rule fisher_yates_mset)
    have "characters g' ! k = characters g ! k \<and> state_of (card_at g' k) = Matched"
      if "k < length (characters g)" and "state_of (card_at g k) = Matched" for k
    proof -
      have "k \<notin> set ?idx"
        using that by (simp add: unmatched_indices_set Matched_iff)
      with n have "characters g' ! k = characters g ! k"
        unfolding c by (rule fisher_yates_frame)
      then show ?thesis
        using that(2) o by (simp add: card_at_def)
    qed
    with res o m show ?thesis
      by blast
  qed
qed


lemma first_board_obj: "r < 12 \<Longrightarrow> objs first_board r = first_cards ! r"
  by (simp add: first_board_def allocate_def first_cards_length)

lemma nth_upt_12: "k < 12 \<Longrightarrow> [0..<12] ! k = k"
  by simp

lemma pair_matched_reached: "matchEffect (both_flipped 2 3) = Inr pair_matched"
proof -
  have n: "name (first_cards ! 2) = name (first_cards ! 3)"
    by (simp add: first_cards_name first_cards_names)
  have "matchEffect (both_flipped 2 3) =
      Inr ((both_flipped 2 3)\<lparr>objs := (objs (both_flipped 2 3))
               (2 := (first_cards ! 2)\<lparr>flipped := True, matched := True\<rparr>,
                3 := (first_cards ! 3)\<lparr>flipped := True, matched := True\<rparr>),
             score := 10, matchedPairs := 1, timeLeft := 65, flippedCards := []\<rparr>)"
    using n
    by (simp add: matchEffect_def Let_def card_at_def both_flipped_simps nth_upt_12 del: nth_upt)
       (simp add: both_flipped_def)
  also have "\<dots> = Inr pair_matched"
    by (simp add: both_flipped_def pair_matched_def first_board_simps)
  finally show ?thesis .
qed

lemma pair_matched_simps:
  "characters pair_matched = [0..<12]"
  "flippedCards pair_matched = []"
  "timers pair_matched = []"
  "gameStarted pair_matched"
  "\<not> gameOver pair_matched"
  "powerUps pair_matched = \<lparr>shuffle = 1, hint = 2, slowTime = 1\<rparr>"
  by (simp_all add: pair_matched_def first_board_def initial_def)

lemma pair_matched_card:
  "card_at pair_matched 2 = (first_cards ! 2)\<lparr>flipped := True, matched := True\<rparr>"
  by (simp add: card_at_def pair_matched_def first_board_simps)

text \<open>The first board after the Elephants have been matched: the shuffle is available
  and the Elephant at position 2 stays.\<close>

theorem shuffle_keeps_matched_witness:
  "2 < length (characters pair_matched) \<and> state_of (card_at pair_matched 2) = Matched \<and>
   count_of Shuffle (powerUps pair_matched) > 0 \<and> phase_of pair_matched = Playing \<and>
   (\<exists>g'. usePowerUp Shuffle pair_matched = Inr g' \<and>
      characters g' ! 2 = characters pair_matched ! 2 \<and> state_of (card_at g' 2) = Matched)"
proof -
  have l: "2 < length (characters pair_matched)"
    by (simp add: pair_matched_simps)
  have m: "state_of (card_at pair_matched 2) = Matched"
    by (simp add: pair_matched_card Matched_iff)
  have e: "count_of Shuffle (powerUps pair_matched) > 0" "phase_of pair_matched = Playing"
    by (simp_all add: count_of_def phase_of_def pair_matched_simps)
  from shuffle_keeps_matched [of pair_matched] l m
  have "\<exists>g'. usePowerUp Shuffle pair_matched = Inr g' \<and>
      characters g' ! 2 = characters pair_matched ! 2 \<and> state_of (card_at g' 2) = Matched"
    by blast
  with l m e show ?thesis
    by blast
qed

lemma one_flipped_simps:
  "characters (one_flipped a) = [0..<12]"
  "flippedCards (one_flipped a) = [a]"
  "timers (one_flipped a) = []"
  "gameStarted (one_flipped a)"
  "\<not> gameOver (one_flipped a)"
  "rng (one_flipped a) = zero_draws"
  "powerUps (one_flipped a) = \<lparr>shuffle = 1, hint = 2, slowTime = 1\<rparr>"
  "hintCard (one_flipped a) = None"
  by (simp_all add: one_flipped_def first_board_def initial_def)

lemma one_flipped_card:
  "k < 12 \<Longrightarrow> a < 12 \<Longrightarrow>
   card_at (one_flipped a) k = (if k = a then (first_cards ! k)\<lparr>flipped := True\<rparr> else first_cards ! k)"
  by (auto simp: card_at_def one_flipped_def first_board_def allocate_def first_cards_length)

lemma one_flipped_reached: "a < 12 \<Longrightarrow> handleCardFlip a first_board = Inr (one_flipped a)"
  using first_cards_fresh [of a] first_board_card [of a]
  by (simp add: handleCardFlip_def first_board_simps one_flipped_def card_at_def)

lemma one_flipped_unmatched: "a < 12 \<Longrightarrow> unmatched_indices (one_flipped a) = [0..<12]"
  using first_cards_fresh
  by (simp add: unmatched_indices_def one_flipped_simps one_flipped_card)

lemma fisher_yates_zero_Suc:
  "fisher_yates (Suc k) idx cs zero_draws =
     fisher_yates k idx (cs[idx ! Suc k := cs ! (idx ! 0), idx ! 0 := cs ! (idx ! Suc k)]) zero_draws"
  by (simp add: Let_def zero_draws_sel rand_index_zero)

lemma fisher_yates_zero_numeral:
  "fisher_yates (numeral v) idx cs zero_draws =
     fisher_yates (pred_numeral v) idx
       (cs[idx ! numeral v := cs ! (idx ! 0), idx ! 0 := cs ! (idx ! numeral v)]) zero_draws"
  using fisher_yates_zero_Suc [of "pred_numeral v" idx cs] by (simp only: numeral_eq_Suc)

lemma upt_12: "[0..<12] = [0, 1, 2, 3, 4, 5, 6, 7, 8, 9, 10, 11]"
  by (simp add: upt_rec)

lemma fisher_yates_zero_draws:
  "fisher_yates 11 [0..<12] [0..<12] zero_draws = ([1, 2, 3, 4, 5, 6, 7, 8, 9, 10, 11, 0], zero_draws)"
  by (simp add: upt_12 fisher_yates_zero_numeral fisher_yates_zero_Suc del: fisher_yates.simps(2))

text \<open>The claim as it stands fails on the first board after the card at position 0 has
  been flipped, with a random source that always draws 0: the face-up card leaves its
  position (it ends at position 11).\<close>

theorem shuffle_moves_face_up:
  "state_of (card_at (one_flipped 0) 0) = FaceUp \<and>
   characters (one_flipped 0) ! 0 = 0 \<and>
   characters (projr (usePowerUp Shuffle (one_flipped 0))) ! 0 \<noteq> 0 \<and>
   characters (projr (usePowerUp Shuffle (one_flipped 0))) ! 11 = 0"
proof -
  have u: "state_of (card_at (one_flipped 0) 0) = FaceUp"
    using first_cards_fresh [of 0] by (simp add: one_flipped_card FaceUp_iff)
  have "usePowerUp Shuffle (one_flipped 0) =
        Inr ((one_flipped 0)\<lparr>powerUps := spend Shuffle (powerUps (one_flipped 0)),
                              characters := [1, 2, 3, 4, 5, 6, 7, 8, 9, 10, 11, 0],
                              rng := zero_draws\<rparr>)"
    by (simp add: usePowerUp_def count_of_def one_flipped_simps one_flipped_unmatched
        fisher_yates_zero_draws)
  then show ?thesis
    using u by (simp add: one_flipped_simps upt_12)
qed

section \<open>Properties of the hint power-up\<close>

lemma add_index_key_set: "fst ` set (add_index n i m) = insert n (fst ` set m)"
  by (induction m) (auto split: if_splits simp: rev_image_eqI)

lemma add_index_distinct: "distinct (map fst m) \<Longrightarrow> distinct (map fst (add_index n i m))"
proof (induction m)
  case Nil
  then show ?case by simp
next
  case (Cons kv m)
  obtain k v where kv: "kv = (k, v)"
    by (cases kv)
  show ?case
  proof (cases "k = n")
    case True
    with Cons.prems kv show ?thesis
      by simp
  next
    case False
    have "k \<notin> fst ` set (add_index n i m)"
      using Cons.prems kv False by (simp add: add_index_key_set)
    with Cons kv False show ?thesis
      by simp
  qed
qed

lemma add_index_nonempty: "[] \<notin> snd ` set m \<Longrightarrow> [] \<notin> snd ` set (add_index n i m)"
  by (induction m) (force split: if_splits)+

lemma add_index_map_of:
  "map_of (add_index n i m) k =
     (if k = n then Some (case map_of m n of None \<Rightarrow> [i] | Some v \<Rightarrow> v @ [i]) else map_of m k)"
  by (induction m) auto

text \<open>The index array filed under a name, empty when the name is no key.\<close>

lemma fold_add_index_distinct:
  "distinct (map fst m) \<Longrightarrow>
   distinct (map fst (fold (\<lambda>idx m. if P idx then add_index (f idx) idx m else m) ks m))"
  by (induction ks arbitrary: m) (simp_all add: add_index_distinct)

lemma fold_add_index_map_of:
  "(case map_of (fold (\<lambda>idx m. if P idx then add_index (f idx) idx m else m) ks m) n of
      None \<Rightarrow> [] | Some v \<Rightarrow> v) =
   (case map_of m n of None \<Rightarrow> [] | Some v \<Rightarrow> v) @ filter (\<lambda>k. P k \<and> f k = n) ks"
proof (induction ks arbitrary: m)
  case Nil
  then show ?case by simp
next
  case (Cons k ks)
  show ?case
    by (simp add: Cons.IH add_index_map_of split: option.splits)
qed

lemma fold_add_index_nonempty:
  "[] \<notin> snd ` set m \<Longrightarrow>
   [] \<notin> snd ` set (fold (\<lambda>idx m. if P idx then add_index (f idx) idx m else m) ks m)"
  by (induction ks arbitrary: m) (simp_all add: add_index_nonempty)

lemma character_map_entry:
  "(n, indices) \<in> set (character_map g) \<longleftrightarrow> indices = unmatched_named g n \<and> indices \<noteq> []"
proof -
  let ?m = "character_map g"
  have d: "distinct (map fst ?m)"
    unfolding character_map_def by (rule fold_add_index_distinct) simp
  have l: "(case map_of ?m n of None \<Rightarrow> [] | Some v \<Rightarrow> v) = unmatched_named g n"
    unfolding character_map_def unmatched_named_def
    using fold_add_index_map_of [of "\<lambda>k. \<not> matched (card_at g k)" "\<lambda>k. name (card_at g k)" "[0..<length (characters g)]" "[]" n]
    by simp
  have ne: "[] \<notin> snd ` set ?m"
    unfolding character_map_def by (rule fold_add_index_nonempty) simp
  show ?thesis
  proof
    assume a: "(n, indices) \<in> set ?m"
    then have "map_of ?m n = Some indices"
      using d by simp
    with l have "indices = unmatched_named g n"
      by simp
    moreover have "indices \<noteq> []"
      using a ne by force
    ultimately show "indices = unmatched_named g n \<and> indices \<noteq> []"
      by simp
  next
    assume a: "indices = unmatched_named g n \<and> indices \<noteq> []"
    then obtain v where "map_of ?m n = Some v"
      using l by (cases "map_of ?m n") auto
    with l a show "(n, indices) \<in> set ?m"
      by (auto dest: map_of_SomeD)
  qed
qed

lemma unmatched_pairs_set:
  "p \<in> set (unmatched_pairs g) \<longleftrightarrow> (\<exists>n. p = unmatched_named g n \<and> length p = 2)"
proof
  assume "p \<in> set (unmatched_pairs g)"
  then obtain n where "(n, p) \<in> set (character_map g)" and "length p = 2"
    by (auto simp: unmatched_pairs_def)
  then show "\<exists>n. p = unmatched_named g n \<and> length p = 2"
    by (auto simp: character_map_entry)
next
  assume "\<exists>n. p = unmatched_named g n \<and> length p = 2"
  then obtain n where n: "p = unmatched_named g n" "length p = 2"
    by blast
  then have "p \<noteq> []"
    by auto
  with n have "(n, p) \<in> set (character_map g)"
    by (simp add: character_map_entry)
  with n(2) show "p \<in> set (unmatched_pairs g)"
    by (force simp: unmatched_pairs_def)
qed

lemma unmatched_named_member:
  "h \<in> set (unmatched_named g n) \<Longrightarrow> name (card_at g h) = n"
  by (simp add: unmatched_named_def)

text \<open>
  Claim C7, as amended. When the hint power-up is available, it always takes one from the
  hint counter and leaves the board (objects, arrangement, flipped indices) as it is.
  If some name has exactly two unmatched cards, the hinted card is one of the two
  unmatched cards of such a name (the cards may be face up); if no name has, nothing else
  changes.
\<close>

theorem hint_selects_unmatched_pair:
  assumes "count_of Hint (powerUps g) > 0" and "phase_of g = Playing"
  shows "\<exists>g'. usePowerUp Hint g = Inr g' \<and>
           hint (powerUps g') = hint (powerUps g) - 1 \<and>
           objs g' = objs g \<and> characters g' = characters g \<and> flippedCards g' = flippedCards g \<and>
           (if \<exists>n. length (unmatched_named g n) = 2
            then \<exists>h. hintCard g' = Some h \<and>
                   h \<in> set (unmatched_named g (name (card_at g h))) \<and>
                   length (unmatched_named g (name (card_at g h))) = 2
            else g' = g\<lparr>powerUps := spend Hint (powerUps g)\<rparr>)"
proof -
  have en: "\<not> (count_of Hint (powerUps g) \<le> 0 \<or> gameOver g \<or> \<not> gameStarted g)"
    using assms by (simp add: phase_Playing_iff)
  show ?thesis
  proof (cases "\<exists>n. length (unmatched_named g n) = 2")
    case True
    then have ne: "unmatched_pairs g \<noteq> []"
      using unmatched_pairs_set [of _ g] by (metis empty_iff empty_set)
    define p where "p = unmatched_pairs g ! rand_index (shd (rng g)) (length (unmatched_pairs g))"
    define h where "h = p ! rand_index (shd (stl (rng g))) 2"
    have "p \<in> set (unmatched_pairs g)"
      unfolding p_def using ne by (simp add: rand_index_less)
    then obtain n where n: "p = unmatched_named g n" "length p = 2"
      using unmatched_pairs_set by blast
    have "h \<in> set p"
      unfolding h_def using n(2) rand_index_less [of 2] by simp
    then have "h \<in> set (unmatched_named g (name (card_at g h)))"
      and "length (unmatched_named g (name (card_at g h))) = 2"
      using n unmatched_named_member [of h g n] by simp_all
    then show ?thesis
      using en ne True
      by (simp add: usePowerUp_def Let_def spend_def p_def [symmetric] h_def [symmetric])
  next
    case False
    then have "unmatched_pairs g = []"
      using unmatched_pairs_set [of _ g] by (metis last_in_set)
    then show ?thesis
      using en False by (simp add: usePowerUp_def Let_def spend_def)
  qed
qed


lemma one_flipped_name:
  "k < 12 \<Longrightarrow> a < 12 \<Longrightarrow> name (card_at (one_flipped a) k) = map name first_cards ! k"
  by (simp add: one_flipped_card first_cards_length)

lemma one_flipped_not_matched: "k < 12 \<Longrightarrow> a < 12 \<Longrightarrow> \<not> matched (card_at (one_flipped a) k)"
  using first_cards_fresh [of k] by (auto simp: one_flipped_card)

lemma one_flipped_positions:
  "[0..<length (characters (one_flipped a))] = [0, 1, 2, 3, 4, 5, 6, 7, 8, 9, 10, 11]"
  by (simp add: one_flipped_simps upt_12)

lemma one_flipped_pairs:
  "unmatched_pairs (one_flipped 0) = [[0, 1], [2, 3], [4, 5], [6, 7], [8, 9], [10, 11]]"
  by (simp add: unmatched_pairs_def character_map_def one_flipped_positions
      one_flipped_name one_flipped_not_matched first_cards_names)

lemma one_flipped_lions: "unmatched_named (one_flipped 0) ''Lion'' = [0, 1]"
  by (simp add: unmatched_named_def one_flipped_positions
      one_flipped_name one_flipped_not_matched first_cards_names)

text \<open>The first board after the Lion at position 0 has been flipped, on a random source
  that always draws 0: the hint goes to a Lion.\<close>

theorem hint_selects_unmatched_pair_witness:
  "count_of Hint (powerUps (one_flipped 0)) > 0 \<and> phase_of (one_flipped 0) = Playing \<and>
   (\<exists>g'. usePowerUp Hint (one_flipped 0) = Inr g' \<and> hint (powerUps g') = 1 \<and>
      characters g' = characters (one_flipped 0) \<and>
      (\<exists>h. hintCard g' = Some h \<and>
         length (unmatched_named (one_flipped 0) (name (card_at (one_flipped 0) h))) = 2))"
proof -
  have h1: "count_of Hint (powerUps (one_flipped 0)) > 0"
    by (simp add: count_of_def one_flipped_simps)
  have h2: "phase_of (one_flipped 0) = Playing"
    by (simp add: phase_of_def one_flipped_simps)
  have "\<exists>n. length (unmatched_named (one_flipped 0) n) = 2"
    using one_flipped_lions by (intro exI [of _ "''Lion''"]) simp
  with hint_selects_unmatched_pair [OF h1 h2]
  have "\<exists>g'. usePowerUp Hint (one_flipped 0) = Inr g' \<and> hint (powerUps g') = 1 \<and>
      characters g' = characters (one_flipped 0) \<and>
      (\<exists>h. hintCard g' = Some h \<and>
         length (unmatched_named (one_flipped 0) (name (card_at (one_flipped 0) h))) = 2)"
    by (auto simp: one_flipped_simps)
  with h1 h2 show ?thesis
    by blast
qed

text \<open>The claim as it stands fails there: the hinted card is the Lion at position 0,
  which is face up.\<close>

theorem hint_marks_face_up:
  "state_of (card_at (one_flipped 0) 0) = FaceUp \<and>
   hintCard (projr (usePowerUp Hint (one_flipped 0))) = Some 0"
proof -
  have u: "state_of (card_at (one_flipped 0) 0) = FaceUp"
    using first_cards_fresh [of 0] by (simp add: one_flipped_card FaceUp_iff)
  have "hintCard (projr (usePowerUp Hint (one_flipped 0))) = Some 0"
    by (simp add: usePowerUp_def count_of_def one_flipped_simps one_flipped_pairs
        zero_draws_sel rand_index_zero)
  with u show ?thesis
    by simp
qed

section \<open>Board generation and errors\<close>

lemma initializeGame_total:
  assumes "rearranges engine (length characterData)"
    and "rearranges engine (2 * min (pairs (difficulty g)) (length characterData))"
  shows "\<exists>g'. initializeGame engine g = Inr g' \<and>
           length (deck g') = 2 * min (pairs (difficulty g)) (length characterData)"
proof -
  from initializeGame_cards [OF assms]
  obtain g' selected rs where res: "initializeGame engine g = Inr g'"
    and m: "mset (deck g') = mset (fst (create_pairs 0 selected rs))"
    and len: "length selected = min (pairs (difficulty g)) (length characterData)"
    by blast
  have "length (deck g') = 2 * min (pairs (difficulty g)) (length characterData)"
    using mset_eq_length [OF m] by (simp add: create_pairs_length len)
  with res show ?thesis
    by blast
qed

lemma initializeGame_names:
  assumes "rearranges engine (length characterData)"
    and "rearranges engine (2 * min (pairs (difficulty g)) (length characterData))"
  shows "\<exists>g'. initializeGame engine g = Inr g' \<and>
           length (deck g') = 2 * min (pairs (difficulty g)) (length characterData) \<and>
           (\<forall>c \<in> set (deck g'). name c \<in> name ` set characterData \<and>
              count_list (map name (deck g')) (name c) = 2) \<and>
           (length characterData \<le> pairs (difficulty g) \<longrightarrow>
              (\<forall>t \<in> set characterData. count_list (map name (deck g')) (name t) = 2))"
proof -
  from initializeGame_cards [OF assms]
  obtain g' selected rs where res: "initializeGame engine g = Inr g'"
    and m: "mset (deck g') = mset (fst (create_pairs 0 selected rs))"
    and len: "length selected = min (pairs (difficulty g)) (length characterData)"
    and d: "distinct (map name selected)"
    and sub: "set selected \<subseteq> set characterData"
    and full: "length characterData \<le> pairs (difficulty g) \<longrightarrow> mset selected = mset characterData"
    by blast
  let ?cards = "fst (create_pairs 0 selected rs)"
  have l: "length (deck g') = 2 * min (pairs (difficulty g)) (length characterData)"
    using mset_eq_length [OF m] by (simp add: create_pairs_length len)
  have cnt: "count_list (map name (deck g')) n = 2 * count_list (map name selected) n" for n
  proof -
    have "mset (map name (deck g')) = mset (map name ?cards)"
      using m by simp
    then have "count_list (map name (deck g')) n = count_list (map name ?cards) n"
      by (rule count_list_mset_cong)
    also have "\<dots> = 2 * count_list (map name selected) n"
      by (simp add: create_pairs_names count_list_doubled [symmetric] map_concat comp_def)
    finally show ?thesis .
  qed
  have a: "name c \<in> name ` set characterData \<and> count_list (map name (deck g')) (name c) = 2"
    if "c \<in> set (deck g')" for c
  proof -
    have "name c \<in> set (map name (deck g'))"
      using that by simp
    also have "set (map name (deck g')) = set (map name ?cards)"
      using m by (metis mset_eq_setD mset_map)
    finally have n: "name c \<in> set (map name selected)"
      by (auto simp: create_pairs_names)
    then have "count_list (map name selected) (name c) = 1"
      using d by (simp only: distinct_count_list_1)
    moreover have "name c \<in> name ` set characterData"
      using n sub by auto
    ultimately show ?thesis
      by (simp add: cnt)
  qed
  have b: "count_list (map name (deck g')) (name t) = 2"
    if "length characterData \<le> pairs (difficulty g)" and "t \<in> set characterData" for t
  proof -
    have "mset (map name selected) = mset (map name characterData)"
      using that(1) full by simp
    then have "count_list (map name selected) (name t) = count_list (map name characterData) (name t)"
      by (rule count_list_mset_cong)
    also have "\<dots> = 1"
      using that(2) characterData_names_distinct by (simp add: distinct_count_list_1)
    finally show ?thesis
      by (simp add: cnt)
  qed
  from res l a b show ?thesis
    by blast
qed

text \<open>
  Claim C5, as amended. Board generation raises no error, whatever the number of pairs:
  \<open>initializeGame\<close>, and with it \<open>startGame\<close>, returns a state. Its deck has
  \<open>2 * min pairs (length characterData)\<close> cards; the name of every card is the name of a
  template and occurs exactly twice in the deck. When \<open>pairs\<close> is the number of templates or
  more, every template has exactly two cards in the deck: the deck silently has one pair
  for each template and no more.
\<close>

theorem initializeGame_never_fails:
  assumes "rearranges engine (length characterData)"
    and "rearranges engine (2 * min (pairs (difficulty g)) (length characterData))"
  shows "\<exists>g'. initializeGame engine g = Inr g' \<and>
           startGame engine g = Inr (g'\<lparr>gameStarted := True\<rparr>) \<and>
           length (deck g') = 2 * min (pairs (difficulty g)) (length characterData) \<and>
           (\<forall>c \<in> set (deck g'). name c \<in> name ` set characterData \<and>
              count_list (map name (deck g')) (name c) = 2) \<and>
           (length characterData \<le> pairs (difficulty g) \<longrightarrow>
              (\<forall>t \<in> set characterData. count_list (map name (deck g')) (name t) = 2))"
proof -
  from initializeGame_names [OF assms]
  obtain g' where g': "initializeGame engine g = Inr g'"
    "length (deck g') = 2 * min (pairs (difficulty g)) (length characterData)"
    "\<forall>c \<in> set (deck g'). name c \<in> name ` set characterData \<and>
       count_list (map name (deck g')) (name c) = 2"
    "length characterData \<le> pairs (difficulty g) \<longrightarrow>
       (\<forall>t \<in> set characterData. count_list (map name (deck g')) (name t) = 2)"
    by blast
  moreover from g'(1) have "startGame engine g = Inr (g'\<lparr>gameStarted := True\<rparr>)"
    by (simp add: startGame_def)
  ultimately show ?thesis
    by blast
qed

lemma custom_start_pairs: "pairs (difficulty (custom_start p)) = p"
  by (simp add: custom_start_def)

lemma ogre_template: "\<lparr>name = ''Ogre'', type = mythical, imageUrl = ''U+1F479''\<rparr> \<in> set characterData"
  by (simp add: characterData_def)

text \<open>Twenty pairs are asked for, two more than there are templates: the deck has 36
  cards, and the last template, the Ogre, has its two.\<close>

theorem initializeGame_never_fails_witness:
  "rearranges insertion_engine (length characterData) \<and>
   rearranges insertion_engine (2 * min (pairs (difficulty (custom_start 20))) (length characterData)) \<and>
   length characterData \<le> pairs (difficulty (custom_start 20)) \<and>
   (\<exists>g'. initializeGame insertion_engine (custom_start 20) = Inr g' \<and>
      startGame insertion_engine (custom_start 20) = Inr (g'\<lparr>gameStarted := True\<rparr>) \<and>
      length (deck g') = 36 \<and>
      list_all (\<lambda>c. count_list (map name (deck g')) (name c) = 2) (deck g') \<and>
      count_list (map name (deck g')) ''Ogre'' = 2)"
proof -
  have h: "length characterData \<le> pairs (difficulty (custom_start 20))"
    by (simp add: custom_start_pairs characterData_length)
  from initializeGame_never_fails [OF insertion_engine_rearranges insertion_engine_rearranges,
      of "custom_start 20"] h
  obtain g' where g': "initializeGame insertion_engine (custom_start 20) = Inr g'"
    "startGame insertion_engine (custom_start 20) = Inr (g'\<lparr>gameStarted := True\<rparr>)"
    "length (deck g') = 2 * min (pairs (difficulty (custom_start 20))) (length characterData)"
    "\<forall>c \<in> set (deck g'). count_list (map name (deck g')) (name c) = 2"
    "\<forall>t \<in> set characterData. count_list (map name (deck g')) (name t) = 2"
    by blast
  from g'(5) ogre_template have "count_list (map name (deck g')) ''Ogre'' = 2"
    by force
  moreover have "length (deck g') = 36"
    using g'(3) by (simp add: custom_start_pairs characterData_length)
  moreover have "list_all (\<lambda>c. count_list (map name (deck g')) (name c) = 2) (deck g')"
    using g'(4) by (simp add: list_all_iff)
  ultimately show ?thesis
    using g'(1,2) h insertion_engine_rearranges by blast
qed

text \<open>The claim as it stands fails for 19 pairs, one more than there are templates: no
  error is raised, and the deck has 36 cards.\<close>

theorem initializeGame_too_many_pairs:
  "length characterData < pairs (difficulty (custom_start 19)) \<and>
   \<not> isl (initializeGame insertion_engine (custom_start 19)) \<and>
   \<not> isl (startGame insertion_engine (custom_start 19)) \<and>
   length (deck (projr (initializeGame insertion_engine (custom_start 19)))) = 36"
  using initializeGame_total [OF insertion_engine_rearranges insertion_engine_rearranges,
      of "custom_start 19"]
  by (auto simp: custom_start_pairs characterData_length startGame_def)

section \<open>Well-formedness is invariant\<close>

lemma initializeGame_fields:
  "\<exists>g'. initializeGame engine g = Inr g' \<and> flippedCards g' = [] \<and> matchedPairs g' = 0 \<and>
     \<not> gameOver g' \<and> \<not> gameWon g' \<and> timers g' = timers g \<and> difficulty g' = difficulty g \<and>
     gameStarted g' = gameStarted g \<and> timeLeft g' = timeLimit (difficulty g) \<and> score g' = 0"
  by (simp add: initializeGame_def split_beta Let_def)

lemma levels_pairs_pos: "d \<in> set difficultyLevels \<Longrightarrow> 0 < pairs d"
  by (auto simp: difficultyLevels_def)

lemma handleCardFlip_static:
  assumes "wf_static g" and "handleCardFlip cid g = Inr g'"
  shows "wf_static g'"
  using assms
  by (auto simp: handleCardFlip_def wf_static_def split: if_splits)

lemma usePowerUp_static:
  assumes "wf_static g" and "usePowerUp t g = Inr g'"
  shows "wf_static g'"
proof (cases "count_of t (powerUps g) \<le> 0 \<or> gameOver g \<or> \<not> gameStarted g")
  case True
  with assms show ?thesis
    by (simp add: usePowerUp_def)
next
  case False
  show ?thesis
  proof (cases t)
    case Shuffle
    with assms False show ?thesis
      by (auto simp: usePowerUp_def Let_def split_beta wf_static_def fisher_yates_length)
  next
    case Hint
    with assms False show ?thesis
      by (auto simp: usePowerUp_def Let_def wf_static_def split: if_splits)
  next
    case SlowTime
    with assms False show ?thesis
      by (auto simp: usePowerUp_def Let_def wf_static_def)
  qed
qed

lemma run_callback_static:
  assumes "wf_static g" and "gameStarted g \<or> gameOver g" and "run_callback cb g = Inr g'"
  shows "wf_static g'"
  using assms
  by (cases cb) (auto simp: wf_static_def Let_def split: if_splits)

lemma drop_timer_static:
  assumes "wf_static g" and "gameStarted g \<or> gameOver g"
  shows "wf_static (g\<lparr>timers := take k (timers g) @ drop (Suc k) (timers g)\<rparr>)"
proof -
  have "list_all wf_timer (take k (timers g) @ drop (Suc k) (timers g))"
    using assms(1) by (auto simp: wf_static_def list_all_iff dest: in_set_takeD in_set_dropD)
  with assms show ?thesis
    by (auto simp: wf_static_def)
qed

lemma matchEffect_static:
  assumes "wf_static g" and "matchEffect g = Inr g'"
  shows "wf_static g'"
  using assms
  by (auto simp: matchEffect_def wf_static_def Let_def split: if_splits)

lemma winEffect_static: "wf_static g \<Longrightarrow> wf_static (winEffect g)"
  by (simp add: winEffect_def wf_static_def)

lemma countdown_static: "wf_static g \<Longrightarrow> gameStarted g \<Longrightarrow> wf_static (countdown g)"
  by (simp add: countdown_def wf_static_def)

lemma handler_static:
  assumes "wf_static g" and "enabled e g" and "handler engine e g = Inr g'"
  shows "wf_static g'"
proof (cases e)
  case (SelectDifficulty level)
  with assms show ?thesis
    by (auto simp: wf_static_def)
next
  case StartGame
  with assms initializeGame_fields [of engine g] show ?thesis
    by (auto simp: startGame_def wf_static_def)
next
  case (FlipCard cid)
  with assms show ?thesis
    by (simp add: handleCardFlip_static)
next
  case (UsePowerUp t)
  with assms show ?thesis
    by (simp add: usePowerUp_static)
next
  case PlayAgain
  with assms initializeGame_fields [of engine g] show ?thesis
    by (auto simp: wf_static_def)
next
  case MainMenu
  with assms show ?thesis
    by (auto simp: wf_static_def)
next
  case Tick
  with assms show ?thesis
    by (auto simp: timerEffect_def countdown_static)
next
  case (Timeout k)
  let ?g = "g\<lparr>timers := take k (timers g) @ drop (Suc k) (timers g)\<rparr>"
  have b: "gameStarted g \<or> gameOver g"
    using assms(1,2) Timeout by (auto simp: wf_static_def)
  with assms(1) have "wf_static ?g"
    by (rule drop_timer_static)
  moreover have "gameStarted ?g \<or> gameOver ?g"
    using b by simp
  moreover have "run_callback (snd (timers g ! k)) ?g = Inr g'"
    using assms(3) Timeout by simp
  ultimately show ?thesis
    by (rule run_callback_static)
qed

text \<open>What the handlers and the matching effect do to \<open>gameOver\<close> and \<open>gameStarted\<close>: only
  a new game takes \<open>gameOver\<close> back.\<close>

lemma matchEffect_flags:
  "matchEffect g = Inr g' \<Longrightarrow>
   gameOver g' = gameOver g \<and> gameStarted g' = gameStarted g \<and> gameWon g' = gameWon g \<and>
   difficulty g' = difficulty g"
  by (auto simp: matchEffect_def Let_def split: if_splits)

lemma handler_flags:
  assumes "handler engine e g = Inr g'" and "e \<noteq> StartGame" and "e \<noteq> PlayAgain"
  shows "(gameOver g \<longrightarrow> gameOver g') \<and> gameWon g' = gameWon g"
proof (cases e)
  case (FlipCard cid)
  with assms show ?thesis
    by (auto simp: handleCardFlip_def split: if_splits)
next
  case (UsePowerUp t)
  with assms show ?thesis
    by (cases t) (auto simp: usePowerUp_def Let_def split_beta split: if_splits)
next
  case Tick
  with assms show ?thesis
    by (auto simp: countdown_def split: if_splits)
next
  case (Timeout k)
  with assms show ?thesis
    by (cases "snd (timers g ! k)") (auto simp: Let_def split: if_splits)
qed (use assms in auto)

lemma dispatch_wf:
  assumes "wf g" and "dispatch engine e g = Inr g'"
  shows "wf g'"
proof (cases "enabled e g")
  case False
  with assms show ?thesis
    by (simp add: dispatch_def)
next
  case True
  from assms(2) True obtain g1 g2 where h: "handler engine e g = Inr g1"
    and m: "(if sets_cards e g then matchEffect g1 else Inr g1) = Inr g2"
    and w: "g' = (if win_deps g2 \<noteq> win_deps g then winEffect g2 else g2)"
    by (auto simp: dispatch_def split: sum.splits)
  have s0: "wf_static g"
    using assms(1) by (simp add: wf_def)
  have s1: "wf_static g1"
    using s0 True h by (rule handler_static)
  have s2: "wf_static g2"
    using s1 m by (auto split: if_splits intro: matchEffect_static)
  have s': "wf_static g'"
    using s2 w by (simp add: winEffect_static)
  have f2: "gameOver g2 = gameOver g1 \<and> gameStarted g2 = gameStarted g1"
    using m by (auto split: if_splits dest: matchEffect_flags)
  have "matchedPairs g' \<noteq> pairs (difficulty g')" if p: "gameStarted g'" "\<not> gameOver g'"
  proof (cases "win_deps g2 \<noteq> win_deps g")
    case True
    with w p show ?thesis
      by (auto simp: winEffect_def split: if_splits)
  next
    case same: False
    with w have g': "g' = g2"
      by simp
    from same have d: "matchedPairs g2 = matchedPairs g" "pairs (difficulty g2) = pairs (difficulty g)"
      "gameStarted g2 = gameStarted g"
      by (simp_all add: win_deps_def)
    show ?thesis
    proof (cases "gameOver g")
      case False
      with assms(1) p g' d show ?thesis
        by (simp add: wf_def)
    next
      case over: True
      have "e = StartGame \<or> e = PlayAgain"
        using handler_flags [OF h] over f2 p g' by auto
      then show ?thesis
      proof
        assume "e = StartGame"
        with True d h initializeGame_fields [of engine g] f2 show ?thesis
          by (auto simp: startGame_def)
      next
        assume e: "e = PlayAgain"
        have "0 < pairs (difficulty g)"
          using s0 by (simp add: wf_static_def levels_pairs_pos)
        moreover have "matchedPairs g1 = 0" and "flippedCards g1 = []"
          using e h initializeGame_fields [of engine g] by auto
        moreover from this have "matchedPairs g2 = matchedPairs g1"
          using m e by (auto simp: matchEffect_def Let_def split: if_splits)
        ultimately show ?thesis
          using g' d by simp
      qed
    qed
  qed
  with s' show ?thesis
    by (simp add: wf_def)
qed

lemma initial_wf: "wf (initial rs)"
  by (simp add: wf_def wf_static_def initial_def difficultyLevels_def)

lemma run_wf: "wf g \<Longrightarrow> run engine es g = Inr g' \<Longrightarrow> wf g'"
proof (induction es arbitrary: g)
  case Nil
  then show ?case by simp
next
  case (Cons e es)
  then show ?case
    by (auto split: sum.splits dest: dispatch_wf)
qed

lemma wf_run: "run engine es (initial rs) = Inr g \<Longrightarrow> wf g"
  using initial_wf run_wf by blast

text \<open>From a well-formed state no event ends in an exception: the indices that reach
  the arrays are within their bounds.\<close>

lemma handler_no_error:
  assumes "wf_static g" and "enabled e g"
  shows "\<exists>g1. handler engine e g = Inr g1"
proof (cases e)
  case StartGame
  with initializeGame_fields [of engine g] show ?thesis
    by (auto simp: startGame_def)
next
  case (FlipCard cid)
  with assms show ?thesis
    by (simp add: handleCardFlip_def)
next
  case (UsePowerUp t)
  then show ?thesis
    by (cases t) (simp_all add: usePowerUp_def Let_def split_beta)
next
  case PlayAgain
  with initializeGame_fields [of engine g] show ?thesis
    by auto
next
  case (Timeout k)
  with assms have "wf_timer (timers g ! k)"
    by (simp add: wf_static_def list_all_length)
  then show ?thesis
    using Timeout
    by (cases "timers g ! k" rule: wf_timer.cases) (simp_all add: Let_def)
qed simp_all

lemma matchEffect_no_error:
  assumes "wf_static g"
  shows "\<exists>g2. matchEffect g = Inr g2"
proof (cases "length (flippedCards g) = 2")
  case True
  with assms have "flippedCards g ! 0 < length (characters g)" "flippedCards g ! 1 < length (characters g)"
    by (simp_all add: wf_static_def list_all_length)
  with True show ?thesis
    by (simp add: matchEffect_def Let_def)
next
  case False
  then show ?thesis
    by (simp add: matchEffect_def)
qed

lemma dispatch_no_error:
  assumes "wf g"
  shows "\<exists>g'. dispatch engine e g = Inr g'"
proof (cases "enabled e g")
  case False
  then show ?thesis
    by (simp add: dispatch_def)
next
  case True
  have s0: "wf_static g"
    using assms by (simp add: wf_def)
  from handler_no_error [OF s0 True] obtain g1 where h: "handler engine e g = Inr g1"
    by blast
  have "wf_static g1"
    using s0 True h by (rule handler_static)
  then obtain g2 where "matchEffect g1 = Inr g2"
    using matchEffect_no_error by blast
  with True h show ?thesis
    by (simp add: dispatch_def)
qed

section \<open>Card ids and the bounds of the board\<close>

text \<open>
  Claim C9, as amended. \<open>handleCardFlip\<close> does not check its argument against the bounds
  of the board: with an id outside them it throws \<open>TypeError\<close>, unless two cards are
  flipped already, in which case it returns before it reads the board. The page never
  passes such an id: an id that the grid can pass (\<open>enabled\<close>) is within the bounds, and
  from a well-formed state no event at all ends in an exception.
\<close>

theorem handleCardFlip_out_of_bounds:
  "(\<not> cid < length (characters g) \<longrightarrow>
      handleCardFlip cid g = (if length (flippedCards g) = 2 then Inr g else Inl TypeError)) \<and>
   (enabled (FlipCard cid) g \<longrightarrow> cid < length (characters g)) \<and>
   (wf g \<longrightarrow> (\<exists>g'. dispatch engine e g = Inr g'))"
proof (intro conjI impI)
  assume "\<not> cid < length (characters g)"
  then show "handleCardFlip cid g = (if length (flippedCards g) = 2 then Inr g else Inl TypeError)"
    by (simp add: handleCardFlip_def)
next
  assume "enabled (FlipCard cid) g"
  then show "cid < length (characters g)"
    by simp
next
  assume "wf g"
  then show "\<exists>g'. dispatch engine e g = Inr g'"
    by (rule dispatch_no_error)
qed

theorem handleCardFlip_out_of_bounds_witness:
  "\<not> 20 < length (characters first_board) \<and>
   handleCardFlip 20 first_board = Inl TypeError \<and>
   enabled (FlipCard 11) first_board \<and>
   wf first_board \<and>
   (\<exists>g'. dispatch insertion_engine (FlipCard 20) first_board = Inr g') \<and>
   (\<exists>g'. dispatch insertion_engine (FlipCard 11) first_board = Inr g')"
  using handleCardFlip_out_of_bounds [of 20 first_board insertion_engine "FlipCard 20"]
    handleCardFlip_out_of_bounds [of 11 first_board insertion_engine "FlipCard 11"]
    first_board_wf
  by (simp add: first_board_simps)

text \<open>On the first board, of twelve cards, the id 12 crashes the handler.\<close>

theorem handleCardFlip_crash:
  "length (characters first_board) = 12 \<and> handleCardFlip 12 first_board = Inl TypeError"
  by (simp add: handleCardFlip_def first_board_simps)

section \<open>Winning, losing and the countdown\<close>

lemma phase_Won_iff: "phase_of g = Won \<longleftrightarrow> gameStarted g \<and> gameOver g \<and> gameWon g"
  by (simp add: phase_of_def)

lemma phase_Lost_iff: "phase_of g = Lost \<longleftrightarrow> gameStarted g \<and> gameOver g \<and> \<not> gameWon g"
  by (simp add: phase_of_def)

text \<open>An event of a game in progress, other than a tick, leaves the three flags to the
  winning effect; and only a new game resets \<open>matchedPairs\<close>.\<close>

lemma handler_in_game:
  assumes "handler engine e g = Inr g1" and "enabled e g" and "gameStarted g" and "e \<noteq> Tick"
    and "e \<noteq> PlayAgain" and "e \<noteq> MainMenu"
  shows "gameOver g1 = gameOver g \<and> gameWon g1 = gameWon g \<and> gameStarted g1 \<and>
         difficulty g1 = difficulty g \<and> matchedPairs g1 = matchedPairs g"
proof (cases e)
  case (FlipCard cid)
  with assms show ?thesis
    by (auto simp: handleCardFlip_def split: if_splits)
next
  case (UsePowerUp t)
  with assms show ?thesis
    by (cases t) (auto simp: usePowerUp_def Let_def split_beta split: if_splits)
next
  case (Timeout k)
  with assms show ?thesis
    by (cases "snd (timers g ! k)") (auto simp: Let_def split: if_splits)
qed (use assms in auto)

lemma matchEffect_over:
  assumes "handler engine e g = Inr g1" and "gameOver g" and "sets_cards e g"
    and "e \<noteq> PlayAgain" and "e \<noteq> StartGame"
  shows "matchEffect g1 = Inr g1"
proof (cases e)
  case (Timeout k)
  with assms have "flippedCards g1 = []"
    by (cases "snd (timers g ! k)") (auto simp: Let_def split: if_splits)
  then show ?thesis
    by (simp add: matchEffect_def)
qed (use assms in auto)


text \<open>
  Claim C3. For every well-formed state \<open>g\<close> and every event that takes it to \<open>g'\<close>: if the
  phase of \<open>g\<close> is \<open>Playing\<close>, then the phase of \<open>g'\<close> is \<open>Won\<close> exactly when \<open>matchedPairs\<close>
  equals \<open>pairs\<close> in \<open>g'\<close>, and it is \<open>Lost\<close> exactly when the event is a tick that finds
  \<open>timeLeft\<close> at 1 or less (and leaves it at 0); a tick takes 1 from \<open>timeLeft\<close>, but not
  below 0. When the phase of \<open>g\<close> is not \<open>Playing\<close>, a tick does nothing (the interval is
  gone). From \<open>Won\<close> and from \<open>Lost\<close>, every event but the two buttons of the dialog keeps
  the phase, so a game that was won is never lost and a game that was lost is never won.
\<close>

theorem phase_transitions:
  assumes "wf g" and "dispatch engine e g = Inr g'"
  shows "(phase_of g = Playing \<longrightarrow>
            (phase_of g' = Won \<longleftrightarrow> matchedPairs g' = pairs (difficulty g')) \<and>
            (phase_of g' = Lost \<longleftrightarrow> e = Tick \<and> timeLeft g \<le> 1) \<and>
            (phase_of g' = Lost \<longrightarrow> timeLeft g' = 0) \<and>
            (e = Tick \<longrightarrow> timeLeft g' = max 0 (timeLeft g - 1))) \<and>
         (phase_of g \<noteq> Playing \<longrightarrow> e = Tick \<longrightarrow> g' = g) \<and>
         (phase_of g = Won \<or> phase_of g = Lost \<longrightarrow> e \<noteq> PlayAgain \<longrightarrow> e \<noteq> MainMenu \<longrightarrow>
            phase_of g' = phase_of g)"
proof (intro conjI impI)
  assume "phase_of g \<noteq> Playing" and "e = Tick"
  then show "g' = g"
    using assms(2) by (simp add: dispatch_def timerEffect_def phase_Playing_iff)
next
  assume t: "phase_of g = Won \<or> phase_of g = Lost" and e: "e \<noteq> PlayAgain" "e \<noteq> MainMenu"
  then have o: "gameStarted g" "gameOver g"
    by (auto simp: phase_Won_iff phase_Lost_iff)
  show "phase_of g' = phase_of g"
  proof (cases "enabled e g")
    case False
    with assms(2) show ?thesis
      by (simp add: dispatch_def)
  next
    case True
    then have ne: "e \<noteq> Tick" "e \<noteq> StartGame"
      using o by (auto simp: timerEffect_def)
    from assms(2) True obtain g1 g2 where h: "handler engine e g = Inr g1"
      and m: "(if sets_cards e g then matchEffect g1 else Inr g1) = Inr g2"
      and w: "g' = (if win_deps g2 \<noteq> win_deps g then winEffect g2 else g2)"
      by (auto simp: dispatch_def split: sum.splits)
    have f: "gameOver g1 = gameOver g \<and> gameWon g1 = gameWon g \<and> gameStarted g1 \<and>
         difficulty g1 = difficulty g \<and> matchedPairs g1 = matchedPairs g"
      using h True o(1) ne(1) e by (rule handler_in_game)
    have "g2 = g1"
      using m matchEffect_over [OF h o(2) _ e(1) ne(2)] by (auto split: if_splits)
    with f w o have "g' = g1"
      by (simp add: win_deps_def)
    with f o show ?thesis
      by (simp add: phase_of_def)
  qed
next
  assume p: "phase_of g = Playing"
  then have o: "gameStarted g" "\<not> gameOver g"
    by (simp_all add: phase_Playing_iff)
  have nw: "\<not> gameWon g" and np: "matchedPairs g \<noteq> pairs (difficulty g)"
    using assms(1) o by (auto simp: wf_def wf_static_def)
  have "(phase_of g' = Won \<longleftrightarrow> matchedPairs g' = pairs (difficulty g')) \<and>
        (phase_of g' = Lost \<longleftrightarrow> e = Tick \<and> timeLeft g \<le> 1) \<and>
        (phase_of g' = Lost \<longrightarrow> timeLeft g' = 0) \<and>
        (e = Tick \<longrightarrow> timeLeft g' = max 0 (timeLeft g - 1))"
  proof (cases "e = Tick")
    case True
    have "win_deps (countdown g) = win_deps g"
      by (simp add: win_deps_def countdown_def)
    then have "g' = countdown g"
      using assms(2) True o by (simp add: dispatch_def timerEffect_def)
    then show ?thesis
      using True o nw np by (auto simp: countdown_def phase_of_def)
  next
    case False
    show ?thesis
    proof (cases "enabled e g")
      case False
      with assms(2) have "g' = g"
        by (simp add: dispatch_def)
      with o nw np \<open>e \<noteq> Tick\<close> show ?thesis
        by (simp add: phase_of_def)
    next
      case True
      then have ne: "e \<noteq> PlayAgain" "e \<noteq> MainMenu"
        using o by auto
      from assms(2) True obtain g1 g2 where h: "handler engine e g = Inr g1"
        and m: "(if sets_cards e g then matchEffect g1 else Inr g1) = Inr g2"
        and w: "g' = (if win_deps g2 \<noteq> win_deps g then winEffect g2 else g2)"
        by (auto simp: dispatch_def split: sum.splits)
      have f: "gameOver g1 = gameOver g \<and> gameWon g1 = gameWon g \<and> gameStarted g1 \<and>
           difficulty g1 = difficulty g \<and> matchedPairs g1 = matchedPairs g"
        using h True o(1) False ne by (rule handler_in_game)
      have f2: "gameOver g2 = gameOver g1 \<and> gameStarted g2 = gameStarted g1 \<and>
           gameWon g2 = gameWon g1 \<and> difficulty g2 = difficulty g1"
        using m by (auto split: if_splits dest: matchEffect_flags)
      show ?thesis
      proof (cases "win_deps g2 \<noteq> win_deps g")
        case True
        with w have "g' = winEffect g2"
          by simp
        then show ?thesis
          using f f2 o nw False by (auto simp: winEffect_def phase_of_def)
      next
        case False
        with w have "g' = g2"
          by simp
        moreover from False have "matchedPairs g2 = matchedPairs g"
          and "pairs (difficulty g2) = pairs (difficulty g)"
          by (simp_all add: win_deps_def)
        ultimately show ?thesis
          using f f2 o nw np \<open>e \<noteq> Tick\<close> by (simp add: phase_of_def)
      qed
    qed
  qed
  then show "phase_of g' = Won \<longleftrightarrow> matchedPairs g' = pairs (difficulty g')"
    and "phase_of g' = Lost \<longleftrightarrow> e = Tick \<and> timeLeft g \<le> 1"
    and "phase_of g' = Lost \<Longrightarrow> timeLeft g' = 0"
    and "e = Tick \<Longrightarrow> timeLeft g' = max 0 (timeLeft g - 1)"
    by blast+
qed


lemma late_board_simps:
  "characters late_board = [0..<12]"
  "flippedCards late_board = [10]"
  "timers late_board = []"
  "gameStarted late_board"
  "\<not> gameOver late_board"
  "\<not> gameWon late_board"
  "matchedPairs late_board = 5"
  "timeLeft late_board = 85"
  "pairs (difficulty late_board) = 6"
  "difficulty late_board \<in> set difficultyLevels"
  by (simp_all add: late_board_def first_board_simps)

lemma late_board_wf: "wf late_board"
  by (simp add: wf_def wf_static_def late_board_simps)

lemma late_board_cards:
  "card_at late_board 10 = (first_cards ! 10)\<lparr>flipped := True\<rparr>"
  "card_at late_board 11 = first_cards ! 11"
  by (simp_all add: card_at_def late_board_def first_board_simps)

lemma late_board_win:
  "\<exists>g'. dispatch engine (FlipCard 11) late_board = Inr g' \<and> phase_of g' = Won \<and>
     matchedPairs g' = 6 \<and> score g' = 60"
proof -
  have n: "name (first_cards ! 10) = name (first_cards ! 11)"
    by (simp add: first_cards_name first_cards_names)
  have f: "\<not> flipped (first_cards ! 11)" "\<not> matched (first_cards ! 11)"
    using first_cards_fresh [of 11] by simp_all
  have "\<exists>g1. handleCardFlip 11 late_board = Inr g1 \<and> flippedCards g1 = [10, 11] \<and>
      characters g1 = [0..<12] \<and> name (card_at g1 10) = name (card_at g1 11) \<and>
      matchedPairs g1 = 5 \<and> score g1 = 50 \<and> gameStarted g1 \<and> difficulty g1 = difficulty late_board"
    using n f
    by (simp add: handleCardFlip_def late_board_simps late_board_cards)
       (simp add: card_at_def late_board_def first_board_simps)
  then obtain g1 where g1: "handleCardFlip 11 late_board = Inr g1" "flippedCards g1 = [10, 11]"
      "characters g1 = [0..<12]" "name (card_at g1 10) = name (card_at g1 11)"
      "matchedPairs g1 = 5" "score g1 = 50" "gameStarted g1" "difficulty g1 = difficulty late_board"
    by blast
  then have "\<exists>g2. matchEffect g1 = Inr g2 \<and> matchedPairs g2 = 6 \<and> score g2 = 60 \<and>
      gameStarted g2 \<and> difficulty g2 = difficulty late_board"
    by (simp add: matchEffect_def Let_def)
  then obtain g2 where g2: "matchEffect g1 = Inr g2" "matchedPairs g2 = 6" "score g2 = 60"
      "gameStarted g2" "difficulty g2 = difficulty late_board"
    by blast
  have s: "sets_cards (FlipCard 11) late_board"
    using f by (simp add: late_board_simps late_board_cards)
  have "dispatch engine (FlipCard 11) late_board = Inr (winEffect g2)"
    using g1(1) g2 s by (simp add: dispatch_def late_board_simps win_deps_def)
  moreover have "phase_of (winEffect g2) = Won" "matchedPairs (winEffect g2) = 6"
    "score (winEffect g2) = 60"
    using g2 by (simp_all add: winEffect_def phase_of_def late_board_simps)
  ultimately show ?thesis
    by blast
qed

text \<open>Late in the first game, the flip of the last Robot wins it; and a tick on the
  first board with one second left loses it.\<close>

theorem phase_transitions_witness:
  "wf late_board \<and> phase_of late_board = Playing \<and>
   (\<exists>g'. dispatch insertion_engine (FlipCard 11) late_board = Inr g' \<and>
      phase_of g' = Won \<and> matchedPairs g' = pairs (difficulty g')) \<and>
   wf (first_board\<lparr>timeLeft := 1\<rparr>) \<and> phase_of (first_board\<lparr>timeLeft := 1\<rparr>) = Playing \<and>
   (\<exists>g'. dispatch insertion_engine Tick (first_board\<lparr>timeLeft := 1\<rparr>) = Inr g' \<and>
      phase_of g' = Lost \<and> timeLeft g' = 0 \<and> matchedPairs g' \<noteq> pairs (difficulty g') \<and>
      dispatch insertion_engine Tick g' = Inr g')"
proof -
  have p1: "phase_of late_board = Playing"
    by (simp add: phase_of_def late_board_simps)
  from late_board_win [of insertion_engine]
  obtain g1 where g1: "dispatch insertion_engine (FlipCard 11) late_board = Inr g1"
    "phase_of g1 = Won"
    by blast
  from phase_transitions [OF late_board_wf g1(1)] p1 g1(2)
  have w: "matchedPairs g1 = pairs (difficulty g1)"
    by simp
  let ?h = "first_board\<lparr>timeLeft := 1\<rparr>"
  have wh: "wf ?h"
    by (simp add: wf_def wf_static_def first_board_simps)
  have p2: "phase_of ?h = Playing"
    by (simp add: phase_of_def first_board_simps)
  from dispatch_no_error [OF wh, of insertion_engine Tick]
  obtain g2 where g2: "dispatch insertion_engine Tick ?h = Inr g2"
    by blast
  from phase_transitions [OF wh g2] p2
  have l: "phase_of g2 = Lost" "timeLeft g2 = 0" "matchedPairs g2 \<noteq> pairs (difficulty g2)"
    by auto
  have "wf g2"
    using wh g2 by (rule dispatch_wf)
  from dispatch_no_error [OF this, of insertion_engine Tick]
  obtain g3 where g3: "dispatch insertion_engine Tick g2 = Inr g3"
    by blast
  from phase_transitions [OF \<open>wf g2\<close> g3] l(1)
  have "g3 = g2"
    by simp
  with late_board_wf p1 g1 w wh p2 g2 l g3 show ?thesis
    by blast
qed

section \<open>The distribution of the initial shuffle\<close>

text \<open>\<open>outcome_prob\<close> is the share of the equally likely answer sequences that lead to the
  outcome, and \<open>follow\<close> on the answers of the source is the run.\<close>

lemma run_cmp_follow:
  "depth t \<le> n \<Longrightarrow>
   fst (run_cmp t rs) = follow t (map (\<lambda>r. Rep_unit_real r - 1 / 2 < 0) (stake n rs))"
proof (induction t arbitrary: n rs)
  case (Done x)
  then show ?case by simp
next
  case (Ask neg other)
  then obtain m where n: "n = Suc m"
    by (cases n) auto
  with Ask.prems have "depth neg \<le> m" "depth other \<le> m"
    by simp_all
  with Ask.IH n show ?case
    by simp
qed

lemma card_answers: "card {answers :: bool list. length answers = n} = 2 ^ n"
  using card_lists_length_eq [of "UNIV :: bool set" n] by simp

lemma finite_answers: "finite {answers :: bool list. length answers = n \<and> P answers}"
  using finite_lists_length_eq [of "UNIV :: bool set" n] by simp

lemma answers_split:
  "{answers. length answers = Suc n \<and> follow (Ask neg other) answers = y} =
   (#) True ` {answers. length answers = n \<and> follow neg answers = y} \<union>
   (#) False ` {answers. length answers = n \<and> follow other answers = y}"
proof (intro set_eqI iffI)
  fix answers
  assume "answers \<in> {answers. length answers = Suc n \<and> follow (Ask neg other) answers = y}"
  then obtain a rest where "answers = a # rest" "length rest = n"
    "follow (Ask neg other) (a # rest) = y"
    by (cases answers) auto
  then show "answers \<in> (#) True ` {answers. length answers = n \<and> follow neg answers = y} \<union>
      (#) False ` {answers. length answers = n \<and> follow other answers = y}"
    by (cases a) auto
next
  fix answers
  assume "answers \<in> (#) True ` {answers. length answers = n \<and> follow neg answers = y} \<union>
      (#) False ` {answers. length answers = n \<and> follow other answers = y}"
  then show "answers \<in> {answers. length answers = Suc n \<and> follow (Ask neg other) answers = y}"
    by auto
qed

lemma outcome_prob_counts:
  "depth t \<le> n \<Longrightarrow>
   real (card {answers. length answers = n \<and> follow t answers = y}) = outcome_prob t y * 2 ^ n"
proof (induction t arbitrary: n)
  case (Done x)
  then show ?case
    by (simp add: card_answers)
next
  case (Ask neg other)
  then obtain m where n: "n = Suc m"
    by (cases n) auto
  with Ask.prems have d: "depth neg \<le> m" "depth other \<le> m"
    by simp_all
  let ?A = "{answers. length answers = m \<and> follow neg answers = y}"
  let ?B = "{answers. length answers = m \<and> follow other answers = y}"
  have "card ((#) True ` ?A \<union> (#) False ` ?B) = card ((#) True ` ?A) + card ((#) False ` ?B)"
    by (rule card_Un_disjoint) (auto simp: finite_answers)
  also have "\<dots> = card ?A + card ?B"
    by (simp add: card_image)
  finally have "real (card {answers. length answers = Suc m \<and> follow (Ask neg other) answers = y}) =
      real (card ?A) + real (card ?B)"
    by (simp add: answers_split)
  then show ?case
    using Ask.IH(1) [OF d(1)] Ask.IH(2) [OF d(2)] n by (simp add: field_simps)
qed

text \<open>Every probability of an outcome is a multiple of a power of one half.\<close>

lemma outcome_prob_dyadic: "\<exists>k :: nat. outcome_prob t y * 2 ^ depth t = real k"
  using outcome_prob_counts [of t "depth t" y] by (metis order_refl)

lemma three_not_dvd_power_two: "\<not> (3 :: nat) dvd (2 :: nat) ^ d"
proof (induction d)
  case 0
  then show ?case by simp
next
  case (Suc d)
  have "coprime (3 :: nat) 2"
    by (simp add: numeral_3_eq_3 numeral_2_eq_2)
  then have "(3 :: nat) dvd 2 * 2 ^ d \<longleftrightarrow> (3 :: nat) dvd 2 ^ d"
    by (rule coprime_dvd_mult_right_iff)
  with Suc show ?case
    by simp
qed

text \<open>
  Claim C4 fails on the code. The deck is permuted by a sort with the random comparator,
  not by a Fisher-Yates pass, and whatever the engine does with the comparator's answers,
  no arrangement of three or more cards has the probability \<open>1 / n!\<close> of the uniform
  distribution.
\<close>

theorem sort_random_not_uniform:
  assumes "3 \<le> n"
  shows "outcome_prob (engine n) p \<noteq> 1 / fact n"
proof
  assume u: "outcome_prob (engine n) p = 1 / fact n"
  obtain k :: nat where k: "outcome_prob (engine n) p * 2 ^ depth (engine n) = real k"
    using outcome_prob_dyadic [of "engine n" p] by auto
  let ?d = "depth (engine n)"
  have "real k * fact n = 2 ^ ?d"
    using k u by (simp add: field_simps)
  then have "real (k * fact n) = real (2 ^ ?d)"
    by simp
  then have e: "k * fact n = (2 :: nat) ^ ?d"
    by (simp only: of_nat_eq_iff)
  have "(3 :: nat) dvd fact n"
    using assms by (simp add: dvd_fact)
  then have "(3 :: nat) dvd k * fact n"
    by (rule dvd_mult)
  with e have "(3 :: nat) dvd (2 :: nat) ^ ?d"
    by simp
  then show False
    by (simp add: three_not_dvd_power_two)
qed

text \<open>The twelve cards of level Normal, sorted by insertion.\<close>

theorem sort_random_not_uniform_witness:
  "(3 :: nat) \<le> 12 \<and> outcome_prob (insertion_engine 12) [0..<12] \<noteq> 1 / fact 12"
  using sort_random_not_uniform [of 12 insertion_engine "[0..<12]"] by simp

section \<open>Timers that outlive their game\<close>

lemma ticks_run:
  assumes "gameStarted g" and "\<not> gameOver g" and "int n < timeLeft g"
  shows "run engine (replicate n Tick) g = Inr (g\<lparr>timeLeft := timeLeft g - int n\<rparr>)"
  using assms
proof (induction n arbitrary: g)
  case 0
  then show ?case by simp
next
  case (Suc n)
  let ?g = "g\<lparr>timeLeft := timeLeft g - 1\<rparr>"
  have "dispatch engine Tick g = Inr ?g"
    using Suc.prems by (simp add: dispatch_def timerEffect_def countdown_def win_deps_def)
  moreover have "run engine (replicate n Tick) ?g = Inr (?g\<lparr>timeLeft := timeLeft ?g - int n\<rparr>)"
    using Suc.prems by (intro Suc.IH) simp_all
  ultimately show ?case
    by (simp add: algebra_simps)
qed

lemma run_append:
  "run engine (es @ fs) g = (case run engine es g of Inl err \<Rightarrow> Inl err | Inr g' \<Rightarrow> run engine fs g')"
  by (induction es arbitrary: g) (simp_all split: sum.splits)

lemma start_dispatch: "dispatch insertion_engine StartGame (initial zero_draws) = Inr first_board"
proof -
  have "win_deps first_board \<noteq> win_deps (initial zero_draws)"
    by (simp add: win_deps_def first_board_simps initial_def)
  moreover have "winEffect first_board = first_board"
    by (simp add: winEffect_def first_board_simps)
  moreover have "matchEffect first_board = Inr first_board"
    by (simp add: matchEffect_def first_board_simps)
  moreover have "enabled StartGame (initial zero_draws)"
    by (simp add: initial_def)
  ultimately show ?thesis
    by (simp add: dispatch_def first_board_reached)
qed

text \<open>The first game with one second left, reached by 59 ticks.\<close>

lemma last_second_reached:
  "run insertion_engine (StartGame # replicate 59 Tick) (initial zero_draws) =
     Inr (first_board\<lparr>timeLeft := 1\<rparr>)"
  using ticks_run [of first_board 59 insertion_engine]
  by (simp add: start_dispatch first_board_simps)


lemma first_flip_dispatch:
  "dispatch engine (FlipCard 0) (first_board\<lparr>timeLeft := 1\<rparr>) = Inr ((one_flipped 0)\<lparr>timeLeft := 1\<rparr>)"
proof -
  let ?g = "first_board\<lparr>timeLeft := 1\<rparr>"
  have c: "card_at ?g 0 = first_cards ! 0"
    using first_board_card [of 0] by (simp add: card_at_def)
  have f: "\<not> flipped (first_cards ! 0)" "\<not> matched (first_cards ! 0)"
    using first_cards_fresh [of 0] by simp_all
  have h: "handleCardFlip 0 ?g = Inr ((one_flipped 0)\<lparr>timeLeft := 1\<rparr>)"
    using f first_board_obj [of 0]
    by (simp add: handleCardFlip_def c first_board_simps nth_upt_12 del: nth_upt)
       (rule game.equality;
        simp add: one_flipped_def card_at_def first_board_simps nth_upt_12 del: nth_upt)
  have m: "matchEffect ((one_flipped 0)\<lparr>timeLeft := 1\<rparr>) = Inr ((one_flipped 0)\<lparr>timeLeft := 1\<rparr>)"
    by (simp add: matchEffect_def one_flipped_simps)
  have w: "win_deps ((one_flipped 0)\<lparr>timeLeft := 1\<rparr>) = win_deps ?g"
    by (simp add: win_deps_def one_flipped_def)
  show ?thesis
    by (simp add: dispatch_def h m w first_board_simps)
qed

lemma second_flip_dispatch:
  "dispatch engine (FlipCard 2) ((one_flipped 0)\<lparr>timeLeft := 1\<rparr>) = Inr mismatch_pending"
proof -
  let ?g = "(one_flipped 0)\<lparr>timeLeft := 1\<rparr>"
  let ?h = "(both_flipped 0 2)\<lparr>timeLeft := 1\<rparr>"
  have c: "card_at ?g 2 = first_cards ! 2"
    using one_flipped_card [of 2 0] by (simp add: card_at_def)
  have f: "\<not> flipped (first_cards ! 2)" "\<not> matched (first_cards ! 2)"
    using first_cards_fresh [of 2] by simp_all
  have h: "handleCardFlip 2 ?g = Inr ?h"
    using f
    by (simp add: handleCardFlip_def c one_flipped_simps nth_upt_12 del: nth_upt)
       (rule game.equality;
        simp add: one_flipped_def both_flipped_def card_at_def first_board_simps first_board_obj
          nth_upt_12 del: nth_upt)
  have n: "name (card_at ?h 0) \<noteq> name (card_at ?h 2)"
    using both_flipped_card [of 0 0 2] both_flipped_card [of 2 0 2]
    by (simp add: card_at_def first_cards_name first_cards_names)
  have m: "matchEffect ?h = Inr mismatch_pending"
    using n by (simp add: matchEffect_def Let_def both_flipped_simps mismatch_pending_def)
  have w: "win_deps mismatch_pending = win_deps ?g"
    by (simp add: win_deps_def mismatch_pending_def both_flipped_def one_flipped_def)
  show ?thesis
    using f by (simp add: dispatch_def h m w one_flipped_simps c)
qed

lemma mismatch_pending_simps:
  "characters mismatch_pending = [0..<12]"
  "flippedCards mismatch_pending = [0, 2]"
  "timers mismatch_pending = [(1000, Revert [0..<12] 0 2)]"
  "timeLeft mismatch_pending = 1"
  "gameStarted mismatch_pending"
  "\<not> gameOver mismatch_pending"
  "\<not> gameWon mismatch_pending"
  "matchedPairs mismatch_pending = 0"
  "score mismatch_pending = 0"
  "nextRef mismatch_pending = 12"
  "rng mismatch_pending = zero_draws"
  "hintCard mismatch_pending = None"
  "powerUps mismatch_pending = \<lparr>shuffle = 1, hint = 2, slowTime = 1\<rparr>"
  "difficulty mismatch_pending = difficultyLevels ! 0"
  by (simp_all add: mismatch_pending_def both_flipped_def first_board_def initial_def)

lemma last_tick_dispatch:
  "dispatch engine Tick mismatch_pending = Inr (mismatch_pending\<lparr>gameOver := True, timeLeft := 0\<rparr>)"
  by (simp add: dispatch_def timerEffect_def countdown_def win_deps_def mismatch_pending_simps)

lemma play_again_dispatch:
  "dispatch insertion_engine PlayAgain (mismatch_pending\<lparr>gameOver := True, timeLeft := 0\<rparr>) =
     Inr second_game"
proof -
  let ?g = "mismatch_pending\<lparr>gameOver := True, timeLeft := 0\<rparr>"
  have p: "pairs (difficultyLevels ! 0) = 6" "timeLimit (difficultyLevels ! 0) = 60"
    by (simp_all add: difficultyLevels_def)
  have c: "create_pairs 0 (take 6 characterData) zero_draws = (first_cards, zero_draws)"
    using create_pairs_zero_draws [of 0 "take 6 characterData"]
    by (simp add: first_cards_def prod_eq_iff)
  have i: "initializeGame insertion_engine ?g = Inr second_game"
    by (simp add: initializeGame_def sort_random_low mismatch_pending_simps p c first_cards_length)
       (rule game.equality; simp add: second_game_def mismatch_pending_simps)
  have m: "matchEffect second_game = Inr second_game"
    by (simp add: matchEffect_def second_game_def)
  have w: "win_deps second_game = win_deps ?g"
    by (simp add: win_deps_def second_game_def)
  show ?thesis
    by (simp add: dispatch_def i m w mismatch_pending_simps)
qed


lemma second_game_simps:
  "characters second_game = [12..<24]"
  "flippedCards second_game = []"
  "timers second_game = [(1000, Revert [0..<12] 0 2)]"
  "timeLeft second_game = 60"
  "gameStarted second_game"
  "\<not> gameOver second_game"
  "matchedPairs second_game = 0"
  by (simp_all add: second_game_def mismatch_pending_simps)

lemma stale_timeout_dispatch:
  "\<exists>g'. dispatch engine (Timeout 0) second_game = Inr g' \<and> characters g' = [0..<12] \<and>
     timeLeft g' = 58 \<and> flippedCards g' = [] \<and> timers g' = []"
  by (simp add: dispatch_def second_game_simps Let_def matchEffect_def win_deps_def)

text \<open>
  Claim C10 fails on the code. Level Normal, every draw 0: the game is started, 59 ticks
  pass, a Lion and an Elephant are flipped, the sixtieth tick ends the game, and the
  button Play Again starts the second game. The reversion scheduled by the first game is
  still pending; when it fires, the board of the second game is replaced by the array of
  the first, and the second game loses two of its sixty seconds.
\<close>

theorem stale_revert_changes_new_game:
  "run insertion_engine
     (StartGame # replicate 59 Tick @ [FlipCard 0, FlipCard 2, Tick, PlayAgain])
     (initial zero_draws) = Inr second_game \<and>
   phase_of second_game = Playing \<and>
   characters second_game = [12..<24] \<and>
   timeLeft second_game = 60 \<and>
   timers second_game = [(1000, Revert [0..<12] 0 2)] \<and>
   \<not> isl (dispatch insertion_engine (Timeout 0) second_game) \<and>
   characters (projr (dispatch insertion_engine (Timeout 0) second_game)) = [0..<12] \<and>
   timeLeft (projr (dispatch insertion_engine (Timeout 0) second_game)) = 58"
proof -
  have "run insertion_engine [FlipCard 0, FlipCard 2, Tick, PlayAgain] (first_board\<lparr>timeLeft := 1\<rparr>) =
      Inr second_game"
    by (simp add: first_flip_dispatch second_flip_dispatch last_tick_dispatch play_again_dispatch)
  then have r: "run insertion_engine
     (StartGame # replicate 59 Tick @ [FlipCard 0, FlipCard 2, Tick, PlayAgain])
     (initial zero_draws) = Inr second_game"
    using last_second_reached
    by (simp only: append_Cons [symmetric] run_append sum.case)
  have p: "phase_of second_game = Playing"
    by (simp add: phase_of_def second_game_simps)
  from stale_timeout_dispatch [of insertion_engine]
  obtain g' where "dispatch insertion_engine (Timeout 0) second_game = Inr g'"
    "characters g' = [0..<12]" "timeLeft g' = 58"
    by blast
  with r p show ?thesis
    by (simp add: second_game_simps)
qed

section \<open>A shuffle while the reversion is pending\<close>

lemma flip_3_dispatch: "dispatch engine (FlipCard 3) first_board = Inr (one_flipped 3)"
proof -
  have h: "handleCardFlip 3 first_board = Inr (one_flipped 3)"
    by (rule one_flipped_reached) simp
  have f: "\<not> flipped (card_at first_board 3)" "\<not> matched (card_at first_board 3)"
    using first_cards_fresh [of 3] by (simp_all add: first_board_card)
  have m: "matchEffect (one_flipped 3) = Inr (one_flipped 3)"
    by (simp add: matchEffect_def one_flipped_simps)
  have w: "win_deps (one_flipped 3) = win_deps first_board"
    by (simp add: win_deps_def one_flipped_def)
  show ?thesis
    using f by (simp add: dispatch_def h m w first_board_simps)
qed

lemma window_open_simps:
  "characters window_open = [0..<12]"
  "flippedCards window_open = [3, 4]"
  "timers window_open = [(1000, Revert [0..<12] 3 4)]"
  "timeLeft window_open = 60"
  "score window_open = 0"
  "matchedPairs window_open = 0"
  "gameStarted window_open"
  "\<not> gameOver window_open"
  "\<not> gameWon window_open"
  "pairs (difficulty window_open) = 6"
  "rng window_open = zero_draws"
  "powerUps window_open = \<lparr>shuffle = 1, hint = 2, slowTime = 1\<rparr>"
  by (simp_all add: window_open_def both_flipped_def first_board_def initial_def difficultyLevels_def)

lemma window_open_card:
  "k < 12 \<Longrightarrow> card_at window_open k =
     (if k = 3 \<or> k = 4 then (first_cards ! k)\<lparr>flipped := True\<rparr> else first_cards ! k)"
  using both_flipped_card [of k 3 4] by (simp add: card_at_def window_open_def)

lemma window_open_obj:
  "r < 12 \<Longrightarrow> objs window_open r =
     (if r = 3 \<or> r = 4 then (first_cards ! r)\<lparr>flipped := True\<rparr> else first_cards ! r)"
  using window_open_card [of r]
  by (simp add: card_at_def window_open_simps nth_upt_12 del: nth_upt)

lemma flip_4_dispatch: "dispatch engine (FlipCard 4) (one_flipped 3) = Inr window_open"
proof -
  let ?h = "both_flipped 3 4"
  have c: "card_at (one_flipped 3) 4 = first_cards ! 4"
    by (simp add: one_flipped_card)
  have f: "\<not> flipped (first_cards ! 4)" "\<not> matched (first_cards ! 4)"
    using first_cards_fresh [of 4] by simp_all
  have h: "handleCardFlip 4 (one_flipped 3) = Inr ?h"
    using f
    by (simp add: handleCardFlip_def c one_flipped_simps nth_upt_12 del: nth_upt)
       (rule game.equality;
        simp add: one_flipped_def both_flipped_def card_at_def first_board_simps first_board_obj
          nth_upt_12 del: nth_upt)
  have n: "name (card_at ?h 3) \<noteq> name (card_at ?h 4)"
    by (simp add: both_flipped_card first_cards_name first_cards_names)
  have m: "matchEffect ?h = Inr window_open"
    using n by (simp add: matchEffect_def Let_def both_flipped_simps window_open_def)
  have w: "win_deps window_open = win_deps (one_flipped 3)"
    by (simp add: win_deps_def window_open_def both_flipped_def one_flipped_def)
  show ?thesis
    using f by (simp add: dispatch_def h m w one_flipped_simps c)
qed

lemma window_open_unmatched: "unmatched_indices window_open = [0..<12]"
  using first_cards_fresh
  by (simp add: unmatched_indices_def window_open_simps window_open_card)

lemma rotated_simps: "rotated ! 3 = 4" "rotated ! 4 = 5" "length rotated = 12"
  by (simp_all add: rotated_def)

lemma fisher_yates_rotated: "fisher_yates 11 [0..<12] [0..<12] zero_draws = (rotated, zero_draws)"
  by (simp add: fisher_yates_zero_draws rotated_def)

lemma shuffle_dispatch: "dispatch engine (UsePowerUp Shuffle) window_open = Inr window_shuffled"
proof -
  let ?g1 = "window_open\<lparr>powerUps := spend Shuffle (powerUps window_open),
                          characters := rotated, rng := zero_draws\<rparr>"
  have u: "usePowerUp Shuffle window_open = Inr ?g1"
    by (simp add: usePowerUp_def count_of_def window_open_simps window_open_unmatched
        fisher_yates_rotated)
  have s: "sets_cards (UsePowerUp Shuffle) window_open"
    by (simp add: count_of_def window_open_simps)
  have c: "card_at ?g1 3 = (first_cards ! 4)\<lparr>flipped := True\<rparr>" "card_at ?g1 4 = first_cards ! 5"
    by (simp_all add: card_at_def window_open_obj rotated_simps)
  have n: "name (card_at ?g1 3) = name (card_at ?g1 4)"
    by (simp add: c first_cards_name first_cards_names)
  have m: "matchEffect ?g1 = Inr window_shuffled"
    using n
    by (simp add: matchEffect_def Let_def window_open_simps c rotated_simps)
       (rule game.equality;
        simp add: window_shuffled_def window_open_simps window_open_obj card_at_def spend_def
          rotated_simps)
  have w: "win_deps window_shuffled \<noteq> win_deps window_open"
    by (simp add: win_deps_def window_shuffled_def window_open_simps)
  have e: "winEffect window_shuffled = window_shuffled"
    by (simp add: winEffect_def window_shuffled_def window_open_simps)
  show ?thesis
    using s by (simp add: dispatch_def u m w e del: sets_cards.simps)
qed


lemma window_shuffled_simps:
  "characters window_shuffled = rotated"
  "flippedCards window_shuffled = []"
  "timers window_shuffled = [(1000, Revert [0..<12] 3 4)]"
  "timeLeft window_shuffled = 65"
  "score window_shuffled = 10"
  "matchedPairs window_shuffled = 1"
  "gameStarted window_shuffled"
  "\<not> gameOver window_shuffled"
  "objs window_shuffled 3 = (first_cards ! 3)\<lparr>flipped := True\<rparr>"
  "objs window_shuffled 4 = (first_cards ! 4)\<lparr>flipped := True, matched := True\<rparr>"
  by (simp_all add: window_shuffled_def window_open_simps window_open_obj)

lemma late_revert_dispatch:
  "\<exists>g'. dispatch engine (Timeout 0) window_shuffled = Inr g' \<and> characters g' = [0..<12] \<and>
     objs g' 3 = (first_cards ! 3)\<lparr>flipped := False\<rparr> \<and>
     objs g' 4 = (first_cards ! 4)\<lparr>flipped := False, matched := True\<rparr> \<and>
     score g' = 10 \<and> matchedPairs g' = 1 \<and> timeLeft g' = 63 \<and>
     flippedCards g' = [] \<and> timers g' = []"
  by (simp add: dispatch_def window_shuffled_simps Let_def matchEffect_def win_deps_def
      nth_upt_12 del: nth_upt)

text \<open>
  Claim C2 fails on the code. Level Normal, every draw 0: the game is started and the
  Elephant at position 3 and the Giraffe at position 4 are flipped. Their names differ,
  so the reversion is scheduled. Within the 1000 ms the shuffle power-up is used; it moves
  the Giraffe that is face up to position 3 and the other Giraffe to position 4, and the
  matching effect, which runs again because \<open>characters\<close> is a new array, finds equal
  names at the positions in \<open>flippedCards\<close>: it matches the two Giraffes and adds 10 to the
  score. When the reversion fires, the Elephant is face down, but the Giraffe that had
  been flipped is \<open>Matched\<close>, not \<open>FaceDown\<close>, and the mismatch has scored 10.
\<close>

theorem shuffle_in_window_matches:
  "run insertion_engine [StartGame, FlipCard 3, FlipCard 4] (initial zero_draws) = Inr window_open \<and>
   flippedCards window_open = [3, 4] \<and>
   state_of (card_at window_open 3) = FaceUp \<and>
   state_of (card_at window_open 4) = FaceUp \<and>
   name (card_at window_open 3) \<noteq> name (card_at window_open 4) \<and>
   timers window_open = [(1000, Revert [0..<12] 3 4)] \<and>
   dispatch insertion_engine (UsePowerUp Shuffle) window_open = Inr window_shuffled \<and>
   score window_shuffled = 10 \<and>
   matchedPairs window_shuffled = 1 \<and>
   \<not> isl (dispatch insertion_engine (Timeout 0) window_shuffled) \<and>
   characters (projr (dispatch insertion_engine (Timeout 0) window_shuffled)) = characters window_open \<and>
   state_of (card_at (projr (dispatch insertion_engine (Timeout 0) window_shuffled)) 3) = FaceDown \<and>
   state_of (card_at (projr (dispatch insertion_engine (Timeout 0) window_shuffled)) 4) = Matched \<and>
   score (projr (dispatch insertion_engine (Timeout 0) window_shuffled)) = 10 \<and>
   timeLeft (projr (dispatch insertion_engine (Timeout 0) window_shuffled)) = 63"
proof -
  have r: "run insertion_engine [StartGame, FlipCard 3, FlipCard 4] (initial zero_draws) = Inr window_open"
    by (simp add: start_dispatch flip_3_dispatch flip_4_dispatch)
  have f: "\<not> matched (first_cards ! 3)" "\<not> matched (first_cards ! 4)"
    using first_cards_fresh [of 3] first_cards_fresh [of 4] by simp_all
  have u: "state_of (card_at window_open 3) = FaceUp" "state_of (card_at window_open 4) = FaceUp"
    using f by (simp_all add: window_open_card FaceUp_iff)
  have n: "name (card_at window_open 3) \<noteq> name (card_at window_open 4)"
    by (simp add: window_open_card first_cards_name first_cards_names)
  from late_revert_dispatch [of insertion_engine]
  obtain g' where g': "dispatch insertion_engine (Timeout 0) window_shuffled = Inr g'"
    "characters g' = [0..<12]"
    "objs g' 3 = (first_cards ! 3)\<lparr>flipped := False\<rparr>"
    "objs g' 4 = (first_cards ! 4)\<lparr>flipped := False, matched := True\<rparr>"
    "score g' = 10" "timeLeft g' = 63"
    by blast
  have c: "card_at g' 3 = objs g' 3" "card_at g' 4 = objs g' 4"
    by (simp_all add: card_at_def g'(2) nth_upt_12 del: nth_upt)
  have d: "state_of (card_at g' 3) = FaceDown" "state_of (card_at g' 4) = Matched"
    using f by (simp_all add: c g'(3,4) FaceDown_iff Matched_iff)
  show ?thesis
    using r u n d g'
    by (simp add: window_open_simps window_shuffled_simps shuffle_dispatch)
qed

end
